theory Spec2Isabelle
  imports Main
begin

section \<open>The viewport window of one axis\<close>

text \<open>
  Cell indices, cell counts and pixel positions are JavaScript numbers that the sheet only
  adds, subtracts and compares. They are modelled as unbounded integers: the model is the
  sheet on integer-valued props, sizes and pixels, in the range where JavaScript adds
  integers exactly (up to \<open>2^53\<close>). Fractional sizes are outside the model; with them a sum
  can stop growing (\<open>50 + 1e-17\<close> is \<open>50\<close>) or converge below the extent.

  \<open>calculateRowsOrColsSizes\<close> fills three parallel arrays: the visible indices and the pixel
  start and end of each of them. The array \<open>end\<close> is the field \<open>endp\<close> here and the
  parameter \<open>size\<close> is \<open>sizef\<close>, since Isabelle reserves both names.
\<close>

record window =
  visible :: "int list"
  start :: "int list"
  endp :: "int list"

text \<open>One round of \<open>visible.push(ind); start.push(prev); end.push(prev + size(ind))\<close>.\<close>

definition pushCell :: "(int \<Rightarrow> int) \<Rightarrow> window \<Rightarrow> int \<Rightarrow> int \<Rightarrow> window" where
  "pushCell sizef w prev ind =
     \<lparr>visible = visible w @ [ind], start = start w @ [prev], endp = endp w @ [prev + sizef ind]\<rparr>"

text \<open>The loop \<open>for (; ind < freezeCount; ind++)\<close> over the frozen leading block.\<close>

function freezeLoop :: "int \<Rightarrow> (int \<Rightarrow> int) \<Rightarrow> window \<Rightarrow> int \<Rightarrow> int \<Rightarrow> window \<times> int \<times> int" where
  "freezeLoop freezeCount sizef w prev ind =
     (if ind < freezeCount
      then freezeLoop freezeCount sizef (pushCell sizef w prev ind) (prev + sizef ind) (ind + 1)
      else (w, prev, ind))"
  by pat_completeness auto
termination
  by (relation "measure (\<lambda>(freezeCount, sizef, w, prev, ind). nat (freezeCount - ind))") auto

declare freezeLoop.simps [simp del]

text \<open>
  The loop \<open>while (true)\<close>: it leaves only through \<open>break\<close>, when the end just pushed reaches
  the visible area. It may run forever; not returning is the value \<open>None\<close>.
\<close>

partial_function (option) whileLoop ::
  "(int \<Rightarrow> int) \<Rightarrow> int \<Rightarrow> window \<Rightarrow> int \<Rightarrow> int \<Rightarrow> window option" where
  "whileLoop sizef visibleArea w prev ind =
     (let w' = pushCell sizef w prev ind;
          prev' = prev + sizef ind
      in if last (endp w') \<ge> visibleArea then Some w'
         else whileLoop sizef visibleArea w' prev' (ind + 1))"

declare whileLoop.simps [code]

definition calculateRowsOrColsSizes ::
  "int \<Rightarrow> (int \<Rightarrow> int) \<Rightarrow> int \<Rightarrow> int \<Rightarrow> int \<Rightarrow> window option" where
  "calculateRowsOrColsSizes freezeCount sizef startingSize startingIndex visibleArea =
     (let firstSize = (if freezeCount > 0 then sizef 0 else sizef startingIndex);
          prev = startingSize + firstSize;
          w = \<lparr>visible = [if freezeCount > 0 then 0 else startingIndex],
               start = [startingSize], endp = [prev]\<rparr>;
          ind = (if freezeCount > 0 then 1 else startingIndex + 1)
      in if freezeCount > 0
         then (case freezeLoop freezeCount sizef w prev ind of
                 (w1, prev1, ind1) \<Rightarrow>
                   whileLoop sizef visibleArea w1 prev1 (max startingIndex freezeCount))
         else whileLoop sizef visibleArea w prev ind)"

section \<open>Accessors built from the props\<close>

text \<open>
  A size prop is an array, a callback, a plain number, or anything else (absent);
  \<open>createRowOrColumnPropFunction\<close> resolves it against a default.
\<close>

datatype 'a axisProp = AxisArray "'a list" | AxisFunction "int \<Rightarrow> 'a" | AxisNumber 'a | AxisOther

fun createRowOrColumnPropFunction :: "'a axisProp \<Rightarrow> 'a \<Rightarrow> int \<Rightarrow> 'a" where
  "createRowOrColumnPropFunction (AxisArray sizeProp) defaultValue cell =
     (if cell \<ge> 0 \<and> cell < int (length sizeProp) then sizeProp ! nat cell else defaultValue)"
| "createRowOrColumnPropFunction (AxisFunction sizeProp) defaultValue cell = sizeProp cell"
| "createRowOrColumnPropFunction (AxisNumber sizeProp) defaultValue cell = sizeProp"
| "createRowOrColumnPropFunction AxisOther defaultValue cell = defaultValue"

text \<open>
  A cell prop is an array of rows, a callback, any other value that is neither \<open>null\<close> nor
  \<open>undefined\<close>, or absent; \<open>createCellPropFunction\<close> resolves it against a default.
\<close>

datatype 'a cellProp = CellArray "'a list list" | CellFunction "int \<Rightarrow> int \<Rightarrow> 'a" | CellValue 'a | CellAbsent

fun createCellPropFunction :: "'a cellProp \<Rightarrow> 'a \<Rightarrow> int \<Rightarrow> int \<Rightarrow> 'a" where
  "createCellPropFunction (CellArray cellProp) defaultValue x y =
     (if y \<ge> 0 \<and> y < int (length cellProp)
      then (if x \<ge> 0 \<and> x < int (length (cellProp ! nat y))
            then cellProp ! nat y ! nat x else defaultValue)
      else defaultValue)"
| "createCellPropFunction (CellFunction cellProp) defaultValue x y = cellProp x y"
| "createCellPropFunction (CellValue cellProp) defaultValue x y = cellProp"
| "createCellPropFunction CellAbsent defaultValue x y = defaultValue"

text \<open>Cell values: \<open>null\<close> (or \<open>undefined\<close>, which the sheet treats alike), a string or a number.\<close>

datatype val = Null | Str string | Num int

text \<open>
  The props the sheet reads. \<open>onChange\<close> and \<open>onSelectionChanged\<close> say whether the host
  passed that callback.
\<close>

record props =
  freezeColumnsProp :: int
  freezeRowsProp :: int
  cellWidthProp :: "int axisProp"
  cellHeightProp :: "int axisProp"
  readOnlyProp :: "bool cellProp"
  sourceDataProp :: "val cellProp"
  editDataProp :: "val cellProp"
  onChange :: bool
  onSelectionChanged :: bool

definition rowHeaderWidth :: int where "rowHeaderWidth = 50"
definition columnHeaderHeight :: int where "columnHeaderHeight = 22"
definition scrollSpeed :: int where "scrollSpeed = 30"

definition freezeColumns :: "props \<Rightarrow> int" where
  "freezeColumns p = freezeColumnsProp p"

definition freezeRows :: "props \<Rightarrow> int" where
  "freezeRows p = freezeRowsProp p"

definition cellWidth :: "props \<Rightarrow> int \<Rightarrow> int" where
  "cellWidth p = createRowOrColumnPropFunction (cellWidthProp p) 100"

definition cellHeight :: "props \<Rightarrow> int \<Rightarrow> int" where
  "cellHeight p = createRowOrColumnPropFunction (cellHeightProp p) 22"

definition cellReadOnly :: "props \<Rightarrow> int \<Rightarrow> int \<Rightarrow> bool" where
  "cellReadOnly p = createCellPropFunction (readOnlyProp p) False"

definition sourceData :: "props \<Rightarrow> int \<Rightarrow> int \<Rightarrow> val" where
  "sourceData p = createCellPropFunction (sourceDataProp p) Null"

definition editData :: "props \<Rightarrow> int \<Rightarrow> int \<Rightarrow> val" where
  "editData p = createCellPropFunction (editDataProp p) Null"

section \<open>The state of the sheet\<close>

record rect =
  rx1 :: int
  ry1 :: int
  rx2 :: int
  ry2 :: int

record hitTarget =
  htX :: int
  htY :: int
  htW :: int
  htH :: int
  htOnClick :: nat

record change =
  cx :: int
  cy :: int
  cvalue :: val

text \<open>
  The state hooks of the component; a point \<open>{x, y}\<close> is a pair. \<open>canvasWidth\<close> and
  \<open>canvasHeight\<close> are what the resize observer reports.
\<close>

record sheet =
  dataOffset :: "int \<times> int"
  selection :: rect
  knobArea :: rect
  editCell :: "int \<times> int"
  editValue :: val
  arrowKeyCommitMode :: bool
  shiftKeyDown :: bool
  knobDragInProgress :: bool
  selectionInProgress :: bool
  columnResize :: "(int \<times> int \<times> int) option"
  rowResize :: "(int \<times> int \<times> int) option"
  rowSelectionInProgress :: bool
  columnSelectionInProgress :: bool
  buttonClickMouseDownCoordinates :: "int \<times> int \<times> hitTarget option"
  canvasWidth :: int
  canvasHeight :: int

text \<open>
  What a handler does to the outside, in the order it happens. A handler is a function from
  the props, the view and the state of the current render to the next state and its effects:
  every read is of the state the render captured, and the setters one handler calls write
  different hooks, so that the state threaded through them is the batch that is applied.
\<close>

datatype effect =
    OnChange "change list"
  | OnSelectionChanged int int int int
  | ScrollLeft int
  | ScrollTop int
  | PreventDefault
  | Click nat

text \<open>
  Each render computes the two windows from the state; the handlers of that render read
  them. A render whose window loop does not return has no handlers.
\<close>

record view =
  columns :: window
  rows :: window

definition render :: "props \<Rightarrow> sheet \<Rightarrow> view option" where
  "render p s =
     (case calculateRowsOrColsSizes (freezeColumns p) (cellWidth p) rowHeaderWidth
             (fst (dataOffset s)) (canvasWidth s) of
        None \<Rightarrow> None
      | Some c \<Rightarrow>
          (case calculateRowsOrColsSizes (freezeRows p) (cellHeight p) columnHeaderHeight
                  (snd (dataOffset s)) (canvasHeight s) of
             None \<Rightarrow> None
           | Some r \<Rightarrow> Some \<lparr>columns = c, rows = r\<rparr>))"

definition visibleColumns :: "view \<Rightarrow> int list" where "visibleColumns v = visible (columns v)"
definition visibleRows :: "view \<Rightarrow> int list" where "visibleRows v = visible (rows v)"

section \<open>Selection and scroll-follow\<close>

text \<open>
  \<open>visibleColumns[visibleColumns.length - 1]\<close> is \<open>undefined\<close> on an empty array, and both
  \<open>undefined === x2\<close> and \<open>undefined <= x2\<close> are false.
\<close>

definition lastIs :: "int list \<Rightarrow> int \<Rightarrow> bool" where
  "lastIs xs x \<longleftrightarrow> xs \<noteq> [] \<and> last xs = x"

definition lastLe :: "int list \<Rightarrow> int \<Rightarrow> bool" where
  "lastLe xs x \<longleftrightarrow> xs \<noteq> [] \<and> last xs \<le> x"

text \<open>
  \<open>changeSelection\<close> reads the scroll offset and the windows of the current render. The
  host scroll position is written from a timeout, so those requests come after the
  selection notification.
\<close>

definition changeSelection ::
  "props \<Rightarrow> view \<Rightarrow> sheet \<Rightarrow> int \<Rightarrow> int \<Rightarrow> int \<Rightarrow> int \<Rightarrow> bool \<Rightarrow> sheet \<times> effect list" where
  "changeSelection p v s x1 y1 x2 y2 scrollToP2 =
     (let s1 = s\<lparr>selection := \<lparr>rx1 = x1, ry1 = y1, rx2 = x2, ry2 = y2\<rparr>\<rparr>;
          (newX, newScrollLeft) =
            (if x2 \<notin> set (visibleColumns v) \<or> lastIs (visibleColumns v) x2
             then (let increment = (if lastLe (visibleColumns v) x2 then 1 else - 1);
                       newX = max (fst (dataOffset s)) (freezeColumns p) + increment
                   in (newX, newX * scrollSpeed))
             else (fst (dataOffset s), - 1));
          (newY, newScrollTop) =
            (if y2 \<notin> set (visibleRows v) \<or> lastIs (visibleRows v) y2
             then (let increment = (if lastLe (visibleRows v) y2 then 1 else - 1);
                       newY = max (snd (dataOffset s)) (freezeRows p) + increment
                   in (newY, newY * scrollSpeed))
             else (snd (dataOffset s), - 1));
          scrolls = scrollToP2 \<and> (newX \<noteq> fst (dataOffset s) \<or> snd (dataOffset s) \<noteq> newY);
          s2 = (if scrolls then s1\<lparr>dataOffset := (newX, newY)\<rparr> else s1);
          sx1 = (if x1 > x2 then x2 else x1);
          sx2 = (if x1 > x2 then x1 else x2);
          sy1 = (if y1 > y2 then y2 else y1);
          sy2 = (if y1 > y2 then y1 else y2)
      in (s2,
          (if onSelectionChanged p then [OnSelectionChanged sx1 sy1 sx2 sy2] else []) @
          (if scrolls \<and> newScrollLeft \<noteq> - 1 then [ScrollLeft newScrollLeft] else []) @
          (if scrolls \<and> newScrollTop \<noteq> - 1 then [ScrollTop newScrollTop] else [])))"

section \<open>Pixels to cells and back\<close>

text \<open>
  One of the two loops of \<open>absCoordianteToCell\<close>: the visible index of the first span that
  holds the pixel, \<open>0\<close> when the loop ends without \<open>break\<close>. A span read past the end of
  \<open>start\<close> or \<open>end\<close> would be \<open>undefined\<close>, which compares false.
\<close>

definition spanCell :: "window \<Rightarrow> int \<Rightarrow> int" where
  "spanCell w a =
     (case find (\<lambda>i. i < length (start w) \<and> i < length (endp w) \<and>
                      a \<ge> start w ! i \<and> a \<le> endp w ! i) [0..<length (visible w)] of
        None \<Rightarrow> 0
      | Some i \<Rightarrow> visible w ! i)"

definition absCoordianteToCell :: "view \<Rightarrow> int \<Rightarrow> int \<Rightarrow> int \<times> int" where
  "absCoordianteToCell v absX absY = (spanCell (columns v) absX, spanCell (rows v) absY)"



section \<open>Editing\<close>

definition editMode :: "sheet \<Rightarrow> bool" where
  "editMode s \<longleftrightarrow> fst (editCell s) \<noteq> - 1 \<and> snd (editCell s) \<noteq> - 1"

definition commitEditingCell :: "props \<Rightarrow> sheet \<Rightarrow> sheet \<times> effect list" where
  "commitEditingCell p s =
     (s\<lparr>editCell := (- 1, - 1)\<rparr>,
      if onChange p
      then [OnChange [\<lparr>cx = fst (editCell s), cy = snd (editCell s), cvalue = editValue s\<rparr>]]
      else [])"

definition startEditingCell :: "props \<Rightarrow> sheet \<Rightarrow> int \<times> int \<Rightarrow> sheet" where
  "startEditingCell p s cell =
     (if cellReadOnly p (fst cell) (snd cell) then s
      else (let editDataValue = editData p (fst cell) (snd cell);
                val = (if editDataValue \<noteq> Null then editDataValue else Str [])
            in s\<lparr>editCell := cell, editValue := val\<rparr>))"

definition onDoubleClick :: "props \<Rightarrow> view \<Rightarrow> sheet \<Rightarrow> int \<times> int \<Rightarrow> sheet \<times> effect list" where
  "onDoubleClick p v s e =
     (startEditingCell p (s\<lparr>arrowKeyCommitMode := False\<rparr>)
        (absCoordianteToCell v (fst e) (snd e)), [])"

section \<open>Pasting text\<close>

definition TAB :: char where "TAB = CHR 0x09"
definition LF :: char where "LF = CHR 0x0A"
definition CR :: char where "CR = CHR 0x0D"

text \<open>Put a character in front of the first piece of a split.\<close>

fun consFirst :: "char \<Rightarrow> string list \<Rightarrow> string list" where
  "consFirst c [] = [[c]]"
| "consFirst c (r # rs) = (c # r) # rs"

text \<open>\<open>row.split('\t')\<close>: never empty, one piece more than there are tabs.\<close>

fun splitTab :: "string \<Rightarrow> string list" where
  "splitTab [] = [[]]"
| "splitTab (c # cs) = (if c = TAB then [] # splitTab cs else consFirst c (splitTab cs))"

text \<open>\<open>text.split(/\r?\n/)\<close>: a line feed ends a row, together with a carriage return before it.\<close>

fun splitRows :: "string \<Rightarrow> string list" where
  "splitRows [] = [[]]"
| "splitRows [c] = (if c = LF then [[], []] else [[c]])"
| "splitRows (c # d # cs) =
     (if c = LF then [] # splitRows (d # cs)
      else if c = CR \<and> d = LF then [] # splitRows cs
      else consFirst c (splitRows (d # cs)))"

text \<open>The loop over the pasted rows, with the running \<open>pasteX2\<close> and \<open>changes\<close>.\<close>

fun pasteRows ::
  "int \<Rightarrow> int \<Rightarrow> string list \<Rightarrow> int \<Rightarrow> int \<Rightarrow> change list \<Rightarrow> int \<times> change list" where
  "pasteRows pasteLocX pasteLocY [] y pasteX2 changes = (pasteX2, changes)"
| "pasteRows pasteLocX pasteLocY (row # rest) y pasteX2 changes =
     (let cols = splitTab row;
          pasteX2' = (if pasteLocX + int (length cols) - 1 > pasteX2
                      then pasteLocX + int (length cols) - 1 else pasteX2);
          changes' = changes @
            map (\<lambda>x. \<lparr>cx = pasteLocX + int x, cy = pasteLocY + y, cvalue = Str (cols ! x)\<rparr>)
              [0..<length cols]
      in pasteRows pasteLocX pasteLocY rest (y + 1) pasteX2' changes')"

text \<open>The paste anchor of \<open>parsePastedText\<close>; \<open>- 1\<close> on an axis means there is none.\<close>

definition pasteLoc :: "sheet \<Rightarrow> int \<times> int" where
  "pasteLoc s =
     (let sel = selection s;
          pasteLocX0 = (if rx1 sel \<noteq> - 1 \<and> rx2 sel = - 1 then rx1 sel else - 1);
          pasteLocY0 = (if ry1 sel \<noteq> - 1 \<and> ry2 sel = - 1 then ry1 sel else - 1);
          pasteLocX = (if rx1 sel \<noteq> - 1 \<and> rx2 sel \<noteq> - 1 then min (rx1 sel) (rx2 sel)
                       else pasteLocX0);
          pasteLocY = (if ry1 sel \<noteq> - 1 \<and> ry2 sel \<noteq> - 1 then min (ry1 sel) (ry2 sel)
                       else pasteLocY0)
      in (pasteLocX, pasteLocY))"

definition parsePastedText :: "props \<Rightarrow> view \<Rightarrow> sheet \<Rightarrow> string \<Rightarrow> sheet \<times> effect list" where
  "parsePastedText p v s text =
     (let (pasteLocX, pasteLocY) = pasteLoc s
      in if pasteLocX = - 1 \<or> pasteLocY = - 1 then (s, [])
         else (let rows = splitRows text;
                   pasteY2 = pasteLocY + int (length rows) - 1;
                   (pasteX2, changes) = pasteRows pasteLocX pasteLocY rows 0 pasteLocX [];
                   (s', fx) = changeSelection p v s pasteLocX pasteLocY pasteX2 pasteY2 False
               in (s', (if onChange p then [OnChange changes] else []) @ fx)))"

section \<open>Keys on the grid\<close>

record keyEvent =
  key :: string
  which :: int
  keyCode :: int
  metaKey :: bool
  ctrlKey :: bool
  shiftKey :: bool

definition isArrowKey :: "string \<Rightarrow> bool" where
  "isArrowKey k \<longleftrightarrow> k \<in> set [''ArrowRight'', ''ArrowLeft'', ''ArrowUp'', ''ArrowDown'']"

text \<open>
  \<open>String.fromCharCode(e.which).toLowerCase() === c\<close> for a lower-case ASCII letter \<open>c\<close>
  given by its code: \<open>fromCharCode\<close> takes its argument modulo \<open>2^16\<close>, and only the letter
  and its capital lower to it.
\<close>

definition whichLowerIs :: "keyEvent \<Rightarrow> int \<Rightarrow> bool" where
  "whichLowerIs e c \<longleftrightarrow> which e mod 65536 = c \<or> which e mod 65536 = c - 32"

text \<open>The two nested loops of the delete branch.\<close>

definition deleteChanges :: "int \<Rightarrow> int \<Rightarrow> int \<Rightarrow> int \<Rightarrow> change list" where
  "deleteChanges x1 y1 x2 y2 =
     concat (map (\<lambda>y. map (\<lambda>x. \<lparr>cx = x, cy = y, cvalue = Null\<rparr>) [x1..x2]) [y1..y2])"

definition onGridKeyDown :: "props \<Rightarrow> view \<Rightarrow> sheet \<Rightarrow> keyEvent \<Rightarrow> sheet \<times> effect list" where
  "onGridKeyDown p v s e =
     (let sel = selection s in
      if editMode s \<and> arrowKeyCommitMode s \<and> isArrowKey (key e) then commitEditingCell p s
      else if key e = ''Shift'' then (s\<lparr>shiftKeyDown := True\<rparr>, [])
      else if (metaKey e \<or> ctrlKey e) \<and> whichLowerIs e 118 then (s, [])
      else if (metaKey e \<or> ctrlKey e) \<and> whichLowerIs e 99 then (s, [])
      else if key e = ''Backspace'' \<or> key e = ''Delete'' then
        (let x1 = (if rx1 sel > rx2 sel then rx2 sel else rx1 sel);
             x2 = (if rx1 sel > rx2 sel then rx1 sel else rx2 sel);
             y1 = (if ry1 sel > ry2 sel then ry2 sel else ry1 sel);
             y2 = (if ry1 sel > ry2 sel then ry1 sel else ry2 sel);
             changes = deleteChanges x1 y1 x2 y2
         in (s, if onChange p then [OnChange changes] else []))
      else if rx1 sel = - 1 \<or> rx2 sel = - 1 \<or> ry1 sel = - 1 \<or> ry2 sel = - 1 then (s, [])
      else if (keyCode e \<ge> 48 \<and> keyCode e \<le> 57) \<or> (keyCode e \<ge> 96 \<and> keyCode e \<le> 105) \<or>
              (keyCode e \<ge> 65 \<and> keyCode e \<le> 90) \<or> key e = ''Enter'' \<or> key e = ''-'' \<or>
              key e = ''.'' \<or> key e = '',''
      then (if cellReadOnly p (rx1 sel) (ry1 sel) then (s, [PreventDefault])
            else ((startEditingCell p s (rx1 sel, ry1 sel))
                    \<lparr>arrowKeyCommitMode := (key e \<noteq> ''Enter'')\<rparr>, []))
      else if isArrowKey (key e) then
        (let sel2x = (if key e = ''ArrowRight'' \<or> key e = ''Tab'' then rx2 sel + 1
                      else if key e = ''ArrowLeft'' then rx2 sel - 1 else rx2 sel);
             sel2y = (if key e = ''ArrowRight'' \<or> key e = ''Tab'' then ry2 sel
                      else if key e = ''ArrowLeft'' then ry2 sel
                      else if key e = ''ArrowUp'' then ry2 sel - 1
                      else if key e = ''ArrowDown'' then ry2 sel + 1 else ry2 sel);
             sel2x' = (if sel2x < 0 then 0 else sel2x);
             sel2y' = (if sel2y < 0 then 0 else sel2y);
             sel1x = (if \<not> shiftKey e then sel2x' else rx1 sel);
             sel1y = (if \<not> shiftKey e then sel2y' else ry1 sel)
         in changeSelection p v s sel1x sel1y sel2x' sel2y' True)
      else (s, [PreventDefault]))"

section \<open>Releasing the mouse: the fill handle\<close>

text \<open>
  The vertical fill: for each destination row \<open>y\<close> one change per column, read from source
  row \<open>srcY\<close>, which then moves down one row and wraps to \<open>sy1\<close> past \<open>sy2\<close>.
\<close>

fun fillRows :: "props \<Rightarrow> int \<Rightarrow> int \<Rightarrow> int \<Rightarrow> int \<Rightarrow> int list \<Rightarrow> int \<Rightarrow> change list" where
  "fillRows p fx1 fx2 sy1 sy2 [] srcY = []"
| "fillRows p fx1 fx2 sy1 sy2 (y # ys) srcY =
     map (\<lambda>x. \<lparr>cx = x, cy = y, cvalue = sourceData p x srcY\<rparr>) [fx1..fx2] @
     fillRows p fx1 fx2 sy1 sy2 ys (if srcY + 1 > sy2 then sy1 else srcY + 1)"

text \<open>The horizontal fill, with columns and rows exchanged.\<close>

fun fillColumns :: "props \<Rightarrow> int \<Rightarrow> int \<Rightarrow> int \<Rightarrow> int \<Rightarrow> int list \<Rightarrow> int \<Rightarrow> change list" where
  "fillColumns p fy1 fy2 sx1 sx2 [] srcX = []"
| "fillColumns p fy1 fy2 sx1 sx2 (x # xs) srcX =
     map (\<lambda>y. \<lparr>cx = x, cy = y, cvalue = sourceData p srcX y\<rparr>) [fy1..fy2] @
     fillColumns p fy1 fy2 sx1 sx2 xs (if srcX + 1 > sx2 then sx1 else srcX + 1)"

definition knobChanges :: "props \<Rightarrow> sheet \<Rightarrow> change list" where
  "knobChanges p s =
     (let sel = selection s; knob = knobArea s;
          sx1 = (if rx1 sel > rx2 sel then rx2 sel else rx1 sel);
          sx2 = (if rx1 sel > rx2 sel then rx1 sel else rx2 sel);
          sy1 = (if ry1 sel > ry2 sel then ry2 sel else ry1 sel);
          sy2 = (if ry1 sel > ry2 sel then ry1 sel else ry2 sel);
          kx1 = (if rx1 knob > rx2 knob then rx2 knob else rx1 knob);
          kx2 = (if rx1 knob > rx2 knob then rx1 knob else rx2 knob);
          ky1 = (if ry1 knob > ry2 knob then ry2 knob else ry1 knob);
          ky2 = (if ry1 knob > ry2 knob then ry1 knob else ry2 knob)
      in if kx2 - kx1 = sx2 - sx1
         then (let fy1 = (if ky1 = sy1 then sy2 + 1 else ky1);
                   fy2 = (if ky1 = sy1 then ky2 else sy1 - 1)
               in fillRows p kx1 kx2 sy1 sy2 [fy1..fy2] sy1)
         else (let fx1 = (if kx1 = sx1 then sx2 + 1 else kx1);
                   fx2 = (if kx1 = sx1 then kx2 else sx1 - 1)
               in fillColumns p ky1 ky2 sx1 sx2 [fx1..fx2] sx1))"

definition insideHitTarget :: "hitTarget \<Rightarrow> int \<Rightarrow> int \<Rightarrow> bool" where
  "insideHitTarget h x y \<longleftrightarrow> htX h \<le> x \<and> x \<le> htX h + htW h \<and> htY h \<le> y \<and> y \<le> htY h + htH h"

text \<open>
  The scroll writes of \<open>changeSelection\<close> run from a timeout, after the handler that called
  it has returned; everything else happens while the handler runs.
\<close>

fun isDeferred :: "effect \<Rightarrow> bool" where
  "isDeferred (ScrollLeft n) = True"
| "isDeferred (ScrollTop n) = True"
| "isDeferred f = False"

text \<open>
  \<open>onMouseUp\<close>; the event is the pointer position relative to its target. The click of an
  armed hit target is called before the handler returns, so before the deferred scroll writes.
\<close>

definition onMouseUp :: "props \<Rightarrow> view \<Rightarrow> sheet \<Rightarrow> int \<times> int \<Rightarrow> sheet \<times> effect list" where
  "onMouseUp p v s e =
     (let (s1, fx1) =
            (if knobDragInProgress s
             then (let knob = knobArea s;
                       (s', fx) = changeSelection p v s (rx1 knob) (ry1 knob) (rx2 knob) (ry2 knob) True
                   in (s', (if onChange p then [OnChange (knobChanges p s)] else []) @ fx))
             else (s, []));
          s2 = s1\<lparr>selectionInProgress := False, rowSelectionInProgress := False,
                  columnSelectionInProgress := False, knobDragInProgress := False,
                  columnResize := None, rowResize := None\<rparr>;
          now = filter (\<lambda>f. \<not> isDeferred f) fx1;
          later = filter isDeferred fx1
      in (case buttonClickMouseDownCoordinates s of
            (bx, by, Some h) \<Rightarrow>
              if bx \<noteq> - 1 \<and> by \<noteq> - 1
              then (s2\<lparr>buttonClickMouseDownCoordinates := (- 1, - 1, None)\<rparr>,
                    now @ (if insideHitTarget h (fst e) (snd e) then [Click (htOnClick h)] else [])
                        @ later)
              else (s2, now @ later)
          | (bx, by, None) \<Rightarrow> (s2, now @ later)))"

section \<open>Predicates of the specification\<close>

text \<open>
  A window is chained when its three arrays are parallel and not empty, every end is its
  start plus the size of its index, and every start but the first is the end before it.
\<close>

definition chained :: "(int \<Rightarrow> int) \<Rightarrow> window \<Rightarrow> bool" where
  "chained sizef w \<longleftrightarrow>
     length (start w) = length (visible w) \<and> length (endp w) = length (visible w) \<and>
     visible w \<noteq> [] \<and>
     (\<forall>i < length (visible w). endp w ! i = start w ! i + sizef (visible w ! i)) \<and>
     (\<forall>i. Suc i < length (visible w) \<longrightarrow> start w ! Suc i = endp w ! i)"

text \<open>A pixel lies in some span of a window: the test of the loops of \<open>absCoordianteToCell\<close>.\<close>

definition inSomeSpan :: "window \<Rightarrow> int \<Rightarrow> bool" where
  "inSomeSpan w a \<longleftrightarrow>
     list_ex (\<lambda>i. i < length (start w) \<and> i < length (endp w) \<and> start w ! i \<le> a \<and> a \<le> endp w ! i)
       [0..<length (visible w)]"

text \<open>The cells of a rectangle given by two corners in any order.\<close>

definition cellsOf :: "int \<Rightarrow> int \<Rightarrow> int \<Rightarrow> int \<Rightarrow> (int \<times> int) set" where
  "cellsOf x1 y1 x2 y2 = {min x1 x2..max x1 x2} \<times> {min y1 y2..max y1 y2}"

text \<open>The calls of \<open>onSelectionChanged\<close> and of \<open>onChange\<close> among the effects of a handler.\<close>

fun selectionNotices :: "effect list \<Rightarrow> (int \<times> int \<times> int \<times> int) list" where
  "selectionNotices [] = []"
| "selectionNotices (OnSelectionChanged a b c d # fx) = (a, b, c, d) # selectionNotices fx"
| "selectionNotices (_ # fx) = selectionNotices fx"

fun changeBatches :: "effect list \<Rightarrow> change list list" where
  "changeBatches [] = []"
| "changeBatches (OnChange cs # fx) = cs # changeBatches fx"
| "changeBatches (_ # fx) = changeBatches fx"

text \<open>
  The source row the fill handle reads \<open>k\<close> destination rows after it read \<open>srcY\<close>, when the
  source rows are \<open>sy1..sy2\<close>: one row further each time, wrapping from \<open>sy2\<close> to \<open>sy1\<close>.
\<close>

definition cycleRow :: "int \<Rightarrow> int \<Rightarrow> int \<Rightarrow> nat \<Rightarrow> int" where
  "cycleRow sy1 sy2 srcY k = sy1 + (srcY - sy1 + int k) mod (sy2 - sy1 + 1)"

text \<open>
  Where the loop \<open>while (true)\<close> of \<open>calculateRowsOrColsSizes\<close> starts: its first index, the
  end of the entry before it, and the end it pushes in round \<open>n\<close> (counted from \<open>0\<close>).
\<close>

definition resumeIndex :: "int \<Rightarrow> int \<Rightarrow> int" where
  "resumeIndex freezeCount startingIndex =
     (if freezeCount > 0 then max startingIndex freezeCount else startingIndex + 1)"

definition resumeEnd :: "int \<Rightarrow> (int \<Rightarrow> int) \<Rightarrow> int \<Rightarrow> int \<Rightarrow> int" where
  "resumeEnd freezeCount sizef startingSize startingIndex =
     (if freezeCount > 0 then startingSize + sum_list (map sizef [0..freezeCount - 1])
      else startingSize + sizef startingIndex)"

definition runEnd :: "(int \<Rightarrow> int) \<Rightarrow> int \<Rightarrow> int \<Rightarrow> nat \<Rightarrow> int" where
  "runEnd sizef prev ind n = prev + sum_list (map (\<lambda>k. sizef (ind + int k)) [0..<Suc n])"

definition cumulativeEnd :: "int \<Rightarrow> (int \<Rightarrow> int) \<Rightarrow> int \<Rightarrow> int \<Rightarrow> nat \<Rightarrow> int" where
  "cumulativeEnd freezeCount sizef startingSize startingIndex n =
     runEnd sizef (resumeEnd freezeCount sizef startingSize startingIndex)
       (resumeIndex freezeCount startingIndex) n"

section \<open>Sample inputs\<close>

text \<open>
  A sheet with default sizes (\<open>100\<close> by \<open>22\<close>), both callbacks, no data; its state as first
  mounted, on a canvas of \<open>300\<close> by \<open>100\<close> pixels; and the view of that render.
\<close>

definition plainProps :: props where
  "plainProps = \<lparr>freezeColumnsProp = 0, freezeRowsProp = 0, cellWidthProp = AxisOther,
     cellHeightProp = AxisOther, readOnlyProp = CellAbsent, sourceDataProp = CellAbsent,
     editDataProp = CellAbsent, onChange = True, onSelectionChanged = True\<rparr>"

definition noSelection :: rect where
  "noSelection = \<lparr>rx1 = - 1, ry1 = - 1, rx2 = - 1, ry2 = - 1\<rparr>"

definition idleSheet :: sheet where
  "idleSheet = \<lparr>dataOffset = (0, 0), selection = noSelection, knobArea = noSelection,
     editCell = (- 1, - 1), editValue = Str [], arrowKeyCommitMode = False,
     shiftKeyDown = False, knobDragInProgress = False, selectionInProgress = False,
     columnResize = None, rowResize = None, rowSelectionInProgress = False,
     columnSelectionInProgress = False, buttonClickMouseDownCoordinates = (- 1, - 1, None),
     canvasWidth = 300, canvasHeight = 100\<rparr>"

definition plainView :: view where
  "plainView = \<lparr>columns = \<lparr>visible = [0, 1, 2], start = [50, 150, 250], endp = [150, 250, 350]\<rparr>,
     rows = \<lparr>visible = [0, 1, 2, 3], start = [22, 44, 66, 88], endp = [44, 66, 88, 110]\<rparr>\<rparr>"

text \<open>The same sheet with two frozen columns, with every cell read-only, and with a 2 by 2 block of source data.\<close>

definition frozenProps :: props where
  "frozenProps = plainProps\<lparr>freezeColumnsProp := 2\<rparr>"

definition lockedProps :: props where
  "lockedProps = plainProps\<lparr>readOnlyProp := CellValue True\<rparr>"

definition blockProps :: props where
  "blockProps = plainProps\<lparr>sourceDataProp := CellArray [[Num 1, Num 2], [Num 3, Num 4]]\<rparr>"

definition deleteKey :: keyEvent where
  "deleteKey = \<lparr>key = ''Delete'', which = 46, keyCode = 46, metaKey = False, ctrlKey = False,
     shiftKey = False\<rparr>"

definition backspaceKey :: keyEvent where
  "backspaceKey = \<lparr>key = ''Backspace'', which = 8, keyCode = 8, metaKey = False, ctrlKey = False,
     shiftKey = False\<rparr>"

text \<open>Column widths given as the array \<open>[100, 0, 100]\<close>: the column \<open>1\<close> has no width.\<close>

definition gapWidths :: "int \<Rightarrow> int" where
  "gapWidths = createRowOrColumnPropFunction (AxisArray [100, 0, 100]) 100"

text \<open>A fill-handle drag in progress: the block \<open>(0,0)-(1,1)\<close> pulled down to row \<open>4\<close>.\<close>

definition dragSheet :: sheet where
  "dragSheet = idleSheet\<lparr>selection := \<lparr>rx1 = 0, ry1 = 0, rx2 = 1, ry2 = 1\<rparr>,
     knobArea := \<lparr>rx1 = 0, ry1 = 0, rx2 = 1, ry2 = 4\<rparr>, knobDragInProgress := True\<rparr>"

section \<open>Invariants of the window loops\<close>

lemma chained_pushCell:
  assumes "chained sizef w" "last (endp w) = prev"
  shows "chained sizef (pushCell sizef w prev ind)"
proof -
  from assms(1) obtain n where n: "length (visible w) = Suc n"
    by (cases "visible w") (auto simp: chained_def)
  from assms(1) n have len: "length (start w) = Suc n" "length (endp w) = Suc n"
    by (simp_all add: chained_def)
  from len have "endp w \<noteq> []" by auto
  with assms(2) len have lastnth: "endp w ! n = prev"
    by (simp add: last_conv_nth)
  show ?thesis
    unfolding chained_def pushCell_def using assms(1) lastnth n len
    by (auto simp: chained_def nth_append less_Suc_eq)
qed

lemma last_pushCell: "last (endp (pushCell sizef w prev ind)) = prev + sizef ind"
  by (simp add: pushCell_def)

lemma freezeLoop_chained:
  "chained sizef w \<Longrightarrow> last (endp w) = prev \<Longrightarrow>
   freezeLoop freezeCount sizef w prev ind = (w', prev', ind') \<Longrightarrow>
   chained sizef w' \<and> last (endp w') = prev'"
proof (induction freezeCount sizef w prev ind rule: freezeLoop.induct)
  case (1 freezeCount sizef w prev ind)
  show ?case
  proof (cases "ind < freezeCount")
    case True
    with "1.prems"(3) have
      "freezeLoop freezeCount sizef (pushCell sizef w prev ind) (prev + sizef ind) (ind + 1) = (w', prev', ind')"
      by (simp add: freezeLoop.simps[of freezeCount sizef w prev ind])
    with "1.IH"[OF True chained_pushCell[OF "1.prems"(1,2)] last_pushCell] show ?thesis .
  next
    case False
    with "1.prems" show ?thesis by (simp add: freezeLoop.simps[of freezeCount sizef w prev ind])
  qed
qed

lemma whileLoop_chained:
  assumes "whileLoop sizef visibleArea w prev ind = Some w'"
  shows "chained sizef w \<longrightarrow> last (endp w) = prev \<longrightarrow> chained sizef w' \<and> last (endp w') \<ge> visibleArea"
proof (rule whileLoop.raw_induct[where P = "\<lambda>sizef visibleArea w prev ind w'.
         chained sizef w \<longrightarrow> last (endp w) = prev \<longrightarrow> chained sizef w' \<and> last (endp w') \<ge> visibleArea",
         OF _ assms])
  fix loop :: "(int \<Rightarrow> int) \<Rightarrow> int \<Rightarrow> window \<Rightarrow> int \<Rightarrow> int \<Rightarrow> window option"
    and sizef visibleArea w prev ind w'
  assume IH: "\<And>sizef visibleArea w prev ind w'. loop sizef visibleArea w prev ind = Some w' \<Longrightarrow>
         chained sizef w \<longrightarrow> last (endp w) = prev \<longrightarrow> chained sizef w' \<and> last (endp w') \<ge> visibleArea"
    and step: "(let w' = pushCell sizef w prev ind; prev' = prev + sizef ind
      in if visibleArea \<le> last (endp w') then Some w'
         else loop sizef visibleArea w' prev' (ind + 1)) = Some w'"
  show "chained sizef w \<longrightarrow> last (endp w) = prev \<longrightarrow> chained sizef w' \<and> last (endp w') \<ge> visibleArea"
  proof (intro impI)
    assume c: "chained sizef w" and l: "last (endp w) = prev"
    show "chained sizef w' \<and> last (endp w') \<ge> visibleArea"
    proof (cases "last (endp (pushCell sizef w prev ind)) \<ge> visibleArea")
      case True
      with step have "w' = pushCell sizef w prev ind" by (simp add: Let_def)
      with True chained_pushCell[OF c l] show ?thesis by simp
    next
      case False
      with step have "loop sizef visibleArea (pushCell sizef w prev ind) (prev + sizef ind) (ind + 1) = Some w'"
        by (simp add: Let_def)
      from IH[OF this] chained_pushCell[OF c l] last_pushCell show ?thesis by simp
    qed
  qed
qed

lemma freezeLoop_visible:
  "freezeLoop freezeCount sizef w prev ind = (w', prev', ind') \<Longrightarrow>
   visible w' = visible w @ [ind..freezeCount - 1] \<and>
   (start w \<noteq> [] \<longrightarrow> hd (start w') = hd (start w))"
proof (induction freezeCount sizef w prev ind rule: freezeLoop.induct)
  case (1 freezeCount sizef w prev ind)
  show ?case
  proof (cases "ind < freezeCount")
    case True
    with "1.prems" have
      "freezeLoop freezeCount sizef (pushCell sizef w prev ind) (prev + sizef ind) (ind + 1) = (w', prev', ind')"
      by (simp add: freezeLoop.simps[of freezeCount sizef w prev ind])
    from "1.IH"[OF True this] True show ?thesis
      by (simp add: pushCell_def upto_rec1[of ind "freezeCount - 1"])
  next
    case False
    with "1.prems" show ?thesis by (simp add: freezeLoop.simps[of freezeCount sizef w prev ind])
  qed
qed

lemma whileLoop_visible:
  assumes "whileLoop sizef visibleArea w prev ind = Some w'"
  shows "(\<exists>m\<ge>ind. visible w' = visible w @ [ind..m]) \<and> (start w \<noteq> [] \<longrightarrow> hd (start w') = hd (start w))"
proof (rule whileLoop.raw_induct[where P = "\<lambda>sizef visibleArea w prev ind w'.
         (\<exists>m\<ge>ind. visible w' = visible w @ [ind..m]) \<and> (start w \<noteq> [] \<longrightarrow> hd (start w') = hd (start w))",
         OF _ assms])
  fix loop :: "(int \<Rightarrow> int) \<Rightarrow> int \<Rightarrow> window \<Rightarrow> int \<Rightarrow> int \<Rightarrow> window option"
    and sizef visibleArea w prev ind w'
  assume IH: "\<And>sizef visibleArea w prev ind w'. loop sizef visibleArea w prev ind = Some w' \<Longrightarrow>
         (\<exists>m\<ge>ind. visible w' = visible w @ [ind..m]) \<and> (start w \<noteq> [] \<longrightarrow> hd (start w') = hd (start w))"
    and step: "(let w' = pushCell sizef w prev ind; prev' = prev + sizef ind
      in if visibleArea \<le> last (endp w') then Some w'
         else loop sizef visibleArea w' prev' (ind + 1)) = Some w'"
  show "(\<exists>m\<ge>ind. visible w' = visible w @ [ind..m]) \<and> (start w \<noteq> [] \<longrightarrow> hd (start w') = hd (start w))"
  proof (cases "last (endp (pushCell sizef w prev ind)) \<ge> visibleArea")
    case True
    with step have "w' = pushCell sizef w prev ind" by (simp add: Let_def)
    then have "visible w' = visible w @ [ind..ind]" "start w \<noteq> [] \<longrightarrow> hd (start w') = hd (start w)"
      by (simp_all add: pushCell_def)
    then show ?thesis by blast
  next
    case False
    with step have "loop sizef visibleArea (pushCell sizef w prev ind) (prev + sizef ind) (ind + 1) = Some w'"
      by (simp add: Let_def)
    from IH[OF this] obtain m where m: "ind + 1 \<le> m"
      "visible w' = visible (pushCell sizef w prev ind) @ [ind + 1..m]"
      and h: "start (pushCell sizef w prev ind) \<noteq> [] \<longrightarrow> hd (start w') = hd (start (pushCell sizef w prev ind))"
      by blast
    from m have "visible w' = visible w @ [ind..m]"
      by (simp add: pushCell_def upto_rec1[of ind m])
    moreover from h have "start w \<noteq> [] \<longrightarrow> hd (start w') = hd (start w)"
      by (simp add: pushCell_def)
    ultimately show ?thesis using m(1) by (intro conjI exI[of _ m]) simp_all
  qed
qed

lemma whileLoop_returns:
  "\<forall>i\<ge>ind. 0 < sizef i \<Longrightarrow>
   \<exists>w'. whileLoop sizef visibleArea w prev ind = Some w'"
proof (induction "nat (visibleArea - prev)" arbitrary: w prev ind rule: less_induct)
  case less
  show ?case
  proof (cases "visibleArea \<le> prev + sizef ind")
    case True
    then show ?thesis
      by (subst whileLoop.simps) (simp add: Let_def last_pushCell)
  next
    case False
    from less.prems have pos: "0 < sizef ind" by simp
    with False have "nat (visibleArea - (prev + sizef ind)) < nat (visibleArea - prev)" by simp
    moreover from less.prems have "\<forall>i\<ge>ind + 1. 0 < sizef i" by simp
    ultimately obtain w' where
      "whileLoop sizef visibleArea (pushCell sizef w prev ind) (prev + sizef ind) (ind + 1) = Some w'"
      using less.hyps by blast
    with False show ?thesis
      by (subst whileLoop.simps) (simp add: Let_def last_pushCell)
  qed
qed

lemma whileLoop_diverges:
  assumes "\<forall>i. sizef i = 0" "prev < visibleArea"
  shows "whileLoop sizef visibleArea w prev ind = None"
proof (rule ccontr)
  assume "whileLoop sizef visibleArea w prev ind \<noteq> None"
  then obtain w' where r: "whileLoop sizef visibleArea w prev ind = Some w'" by blast
  have "\<not> ((\<forall>i. sizef i = 0) \<and> prev < visibleArea)"
  proof (rule whileLoop.raw_induct[where P = "\<lambda>sizef visibleArea w prev ind w'.
           \<not> ((\<forall>i. sizef i = 0) \<and> prev < visibleArea)", OF _ r])
    fix loop :: "(int \<Rightarrow> int) \<Rightarrow> int \<Rightarrow> window \<Rightarrow> int \<Rightarrow> int \<Rightarrow> window option"
      and sizef visibleArea w prev ind w'
    assume IH: "\<And>sizef visibleArea w prev ind w'. loop sizef visibleArea w prev ind = Some w' \<Longrightarrow>
           \<not> ((\<forall>i. sizef i = 0) \<and> prev < visibleArea)"
      and step: "(let w' = pushCell sizef w prev ind; prev' = prev + sizef ind
        in if visibleArea \<le> last (endp w') then Some w'
           else loop sizef visibleArea w' prev' (ind + 1)) = Some w'"
    show "\<not> ((\<forall>i. sizef i = 0) \<and> prev < visibleArea)"
    proof
      assume a: "(\<forall>i. sizef i = 0) \<and> prev < visibleArea"
      with step have "loop sizef visibleArea (pushCell sizef w prev ind) prev (ind + 1) = Some w'"
        by (simp add: Let_def last_pushCell)
      from IH[OF this] a show False by simp
    qed
  qed
  with assms show False by simp
qed

lemma calc_chained:
  assumes "calculateRowsOrColsSizes freezeCount sizef startingSize startingIndex visibleArea = Some w"
  shows "chained sizef w \<and> visibleArea \<le> last (endp w)"
proof -
  let ?first = "if freezeCount > 0 then 0 else startingIndex"
  let ?w0 = "\<lparr>visible = [?first], start = [startingSize], endp = [startingSize + sizef ?first]\<rparr>"
  have c0: "chained sizef ?w0" by (simp add: chained_def)
  have l0: "last (endp ?w0) = startingSize + sizef ?first" by simp
  show ?thesis
  proof (cases "freezeCount > 0")
    case True
    obtain w1 prev1 ind1 where
      f: "freezeLoop freezeCount sizef ?w0 (startingSize + sizef ?first) 1 = (w1, prev1, ind1)"
      by (metis prod_cases3)
    from freezeLoop_chained[OF c0 l0 f] have c1: "chained sizef w1" "last (endp w1) = prev1" by simp_all
    from assms True f have
      "whileLoop sizef visibleArea w1 prev1 (max startingIndex freezeCount) = Some w"
      by (simp add: calculateRowsOrColsSizes_def Let_def)
    from whileLoop_chained[OF this] c1 show ?thesis by simp
  next
    case False
    with assms have
      "whileLoop sizef visibleArea ?w0 (startingSize + sizef ?first) (startingIndex + 1) = Some w"
      by (simp add: calculateRowsOrColsSizes_def Let_def)
    from whileLoop_chained[OF this] c0 l0 show ?thesis by simp
  qed
qed

lemma calc_visible:
  assumes "calculateRowsOrColsSizes freezeCount sizef startingSize startingIndex visibleArea = Some w"
  shows "(\<exists>m. visible w = (if freezeCount > 0 then [0..freezeCount - 1] @ [max startingIndex freezeCount..m]
                            else [startingIndex..m])) \<and> hd (start w) = startingSize"
proof -
  let ?first = "if freezeCount > 0 then 0 else startingIndex"
  let ?w0 = "\<lparr>visible = [?first], start = [startingSize], endp = [startingSize + sizef ?first]\<rparr>"
  show ?thesis
  proof (cases "freezeCount > 0")
    case True
    obtain w1 prev1 ind1 where
      f: "freezeLoop freezeCount sizef ?w0 (startingSize + sizef ?first) 1 = (w1, prev1, ind1)"
      by (metis prod_cases3)
    from freezeLoop_visible[OF f] True have v1: "visible w1 = [0..freezeCount - 1]" "hd (start w1) = startingSize"
      by (simp_all add: upto_rec1[of 0 "freezeCount - 1"])
    have s1: "start w1 \<noteq> []"
      using freezeLoop_chained[OF _ _ f] by (auto simp: chained_def)
    from assms True f have
      "whileLoop sizef visibleArea w1 prev1 (max startingIndex freezeCount) = Some w"
      by (simp add: calculateRowsOrColsSizes_def Let_def)
    from whileLoop_visible[OF this] v1 s1 True show ?thesis by auto
  next
    case False
    with assms have
      "whileLoop sizef visibleArea ?w0 (startingSize + sizef ?first) (startingIndex + 1) = Some w"
      by (simp add: calculateRowsOrColsSizes_def Let_def)
    from whileLoop_visible[OF this] obtain m where
      m: "startingIndex + 1 \<le> m" "visible w = visible ?w0 @ [startingIndex + 1..m]"
      and h: "hd (start w) = startingSize" by auto
    from m False have "visible w = [startingIndex..m]"
      by (simp add: upto_rec1[of startingIndex m])
    with h False show ?thesis by auto
  qed
qed


lemma calc_returns:
  assumes "\<forall>i. 0 < sizef i"
  shows "\<exists>w. calculateRowsOrColsSizes freezeCount sizef startingSize startingIndex visibleArea = Some w"
proof -
  from assms have "\<And>ind. \<forall>i\<ge>ind. 0 < sizef i" by simp
  from whileLoop_returns[OF this] show ?thesis
    by (simp add: calculateRowsOrColsSizes_def Let_def split: prod.split)
qed


text \<open>The loop returns exactly when one of the ends it would push reaches the visible area.\<close>

lemma runEnd_0: "runEnd sizef prev ind 0 = prev + sizef ind"
  by (simp add: runEnd_def)

lemma sum_list_upt_shift:
  "sum_list (map f [0..<Suc n]) = (f 0 :: int) + sum_list (map (\<lambda>k. f (Suc k)) [0..<n])"
  by (induction n) simp_all

lemma runEnd_Suc: "runEnd sizef prev ind (Suc n) = runEnd sizef (prev + sizef ind) (ind + 1) n"
proof -
  have "(\<lambda>k. sizef (ind + int (Suc k))) = (\<lambda>k. sizef (ind + 1 + int k))"
  proof (rule ext)
    fix k
    have "ind + int (Suc k) = ind + 1 + int k" by simp
    then show "sizef (ind + int (Suc k)) = sizef (ind + 1 + int k)" by (rule arg_cong)
  qed
  then have "sum_list (map (\<lambda>k. sizef (ind + int k)) [0..<Suc (Suc n)]) =
        sizef ind + sum_list (map (\<lambda>k. sizef (ind + 1 + int k)) [0..<Suc n])"
    by (simp only: sum_list_upt_shift[of "\<lambda>k. sizef (ind + int k)" "Suc n"] of_nat_0 add_0_right)
  then show ?thesis by (simp only: runEnd_def)
qed

lemma whileLoop_reaches:
  "visibleArea \<le> runEnd sizef prev ind n \<Longrightarrow> \<exists>w'. whileLoop sizef visibleArea w prev ind = Some w'"
proof (induction n arbitrary: w prev ind)
  case 0
  then show ?case
    by (subst whileLoop.simps) (simp add: Let_def last_pushCell runEnd_0)
next
  case (Suc n)
  show ?case
  proof (cases "visibleArea \<le> prev + sizef ind")
    case True
    then show ?thesis
      by (subst whileLoop.simps) (simp add: Let_def last_pushCell)
  next
    case False
    from Suc.prems have "visibleArea \<le> runEnd sizef (prev + sizef ind) (ind + 1) n"
      by (simp only: runEnd_Suc)
    from Suc.IH[OF this] obtain w' where
      "whileLoop sizef visibleArea (pushCell sizef w prev ind) (prev + sizef ind) (ind + 1) = Some w'"
      by blast
    with False show ?thesis
      by (subst whileLoop.simps) (simp add: Let_def last_pushCell)
  qed
qed

lemma whileLoop_reached:
  assumes "whileLoop sizef visibleArea w prev ind = Some w'"
  shows "\<exists>n. visibleArea \<le> runEnd sizef prev ind n"
proof (rule whileLoop.raw_induct[where P = "\<lambda>sizef visibleArea w prev ind w'.
         \<exists>n. visibleArea \<le> runEnd sizef prev ind n", OF _ assms])
  fix loop :: "(int \<Rightarrow> int) \<Rightarrow> int \<Rightarrow> window \<Rightarrow> int \<Rightarrow> int \<Rightarrow> window option"
    and sizef visibleArea w prev ind w'
  assume IH: "\<And>sizef visibleArea w prev ind w'. loop sizef visibleArea w prev ind = Some w' \<Longrightarrow>
         \<exists>n. visibleArea \<le> runEnd sizef prev ind n"
    and step: "(let w' = pushCell sizef w prev ind; prev' = prev + sizef ind
      in if visibleArea \<le> last (endp w') then Some w'
         else loop sizef visibleArea w' prev' (ind + 1)) = Some w'"
  show "\<exists>n. visibleArea \<le> runEnd sizef prev ind n"
  proof (cases "visibleArea \<le> prev + sizef ind")
    case True
    then have "visibleArea \<le> runEnd sizef prev ind 0" by (simp add: runEnd_0)
    then show ?thesis ..
  next
    case False
    with step have "loop sizef visibleArea (pushCell sizef w prev ind) (prev + sizef ind) (ind + 1) = Some w'"
      by (simp add: Let_def last_pushCell)
    from IH[OF this] obtain n where "visibleArea \<le> runEnd sizef (prev + sizef ind) (ind + 1) n" ..
    then have "visibleArea \<le> runEnd sizef prev ind (Suc n)" by (simp only: runEnd_Suc)
    then show ?thesis ..
  qed
qed

lemma freezeLoop_prev:
  "freezeLoop freezeCount sizef w prev ind = (w', prev', ind') \<Longrightarrow>
   prev' = prev + sum_list (map sizef [ind..freezeCount - 1])"
proof (induction freezeCount sizef w prev ind rule: freezeLoop.induct)
  case (1 freezeCount sizef w prev ind)
  show ?case
  proof (cases "ind < freezeCount")
    case True
    with "1.prems" have
      "freezeLoop freezeCount sizef (pushCell sizef w prev ind) (prev + sizef ind) (ind + 1) = (w', prev', ind')"
      by (simp add: freezeLoop.simps[of freezeCount sizef w prev ind])
    from "1.IH"[OF True this] True show ?thesis
      by (simp add: upto_rec1[of ind "freezeCount - 1"])
  next
    case False
    with "1.prems" show ?thesis by (simp add: freezeLoop.simps[of freezeCount sizef w prev ind])
  qed
qed

lemma calc_as_whileLoop:
  "\<exists>w0. calculateRowsOrColsSizes freezeCount sizef startingSize startingIndex visibleArea =
     whileLoop sizef visibleArea w0 (resumeEnd freezeCount sizef startingSize startingIndex)
       (resumeIndex freezeCount startingIndex)"
proof (cases "freezeCount > 0")
  case True
  let ?w = "\<lparr>visible = [0], start = [startingSize], endp = [startingSize + sizef 0]\<rparr>"
  obtain w1 prev1 ind1 where
    f: "freezeLoop freezeCount sizef ?w (startingSize + sizef 0) 1 = (w1, prev1, ind1)"
    by (metis prod_cases3)
  from freezeLoop_prev[OF f] True have "prev1 = startingSize + sum_list (map sizef [0..freezeCount - 1])"
    by (simp add: upto_rec1[of 0 "freezeCount - 1"])
  with True f show ?thesis
    by (intro exI[of _ w1]) (simp add: calculateRowsOrColsSizes_def Let_def resumeEnd_def resumeIndex_def)
next
  case False
  then show ?thesis
    by (intro exI[of _ "\<lparr>visible = [startingIndex], start = [startingSize],
          endp = [startingSize + sizef startingIndex]\<rparr>"])
       (simp add: calculateRowsOrColsSizes_def Let_def resumeEnd_def resumeIndex_def)
qed

lemma calc_returns_iff:
  "(\<exists>w. calculateRowsOrColsSizes freezeCount sizef startingSize startingIndex visibleArea = Some w)
   \<longleftrightarrow> (\<exists>n. visibleArea \<le> cumulativeEnd freezeCount sizef startingSize startingIndex n)"
proof -
  from calc_as_whileLoop[of freezeCount sizef startingSize startingIndex visibleArea]
  obtain w0 where c: "calculateRowsOrColsSizes freezeCount sizef startingSize startingIndex visibleArea =
     whileLoop sizef visibleArea w0 (resumeEnd freezeCount sizef startingSize startingIndex)
       (resumeIndex freezeCount startingIndex)" ..
  show ?thesis
    unfolding c cumulativeEnd_def
    using whileLoop_reaches whileLoop_reached by blast
qed

lemma calc_returns_from_resume:
  assumes "\<forall>i\<ge>resumeIndex freezeCount startingIndex. 1 \<le> sizef i"
  shows "\<exists>w. calculateRowsOrColsSizes freezeCount sizef startingSize startingIndex visibleArea = Some w"
proof -
  from calc_as_whileLoop[of freezeCount sizef startingSize startingIndex visibleArea]
  obtain w0 where c: "calculateRowsOrColsSizes freezeCount sizef startingSize startingIndex visibleArea =
     whileLoop sizef visibleArea w0 (resumeEnd freezeCount sizef startingSize startingIndex)
       (resumeIndex freezeCount startingIndex)" ..
  from assms have "\<forall>i\<ge>resumeIndex freezeCount startingIndex. 0 < sizef i" by force
  from whileLoop_returns[OF this] show ?thesis unfolding c .
qed

lemma render_returns:
  assumes "\<forall>i. 0 < cellWidth p i" and "\<forall>i. 0 < cellHeight p i"
  shows "\<exists>v. render p s = Some v"
proof -
  from calc_returns[OF assms(1)] obtain c where
    "calculateRowsOrColsSizes (freezeColumns p) (cellWidth p) rowHeaderWidth
             (fst (dataOffset s)) (canvasWidth s) = Some c" by blast
  moreover from calc_returns[OF assms(2)] obtain r where
    "calculateRowsOrColsSizes (freezeRows p) (cellHeight p) columnHeaderHeight
                  (snd (dataOffset s)) (canvasHeight s) = Some r" by blast
  ultimately show ?thesis by (simp add: render_def)
qed

section \<open>Spans of a chained window\<close>



section \<open>The sample inputs, evaluated\<close>

lemma render_plain: "render plainProps idleSheet = Some plainView"
  by code_simp

lemma render_frozen: "render frozenProps idleSheet = Some plainView"
  by code_simp

section \<open>Lemmas on the handlers\<close>

lemma spanCell_default: "\<not> inSomeSpan w a \<Longrightarrow> spanCell w a = 0"
proof -
  assume "\<not> inSomeSpan w a"
  then have "find (\<lambda>i. i < length (start w) \<and> i < length (endp w) \<and>
                      a \<ge> start w ! i \<and> a \<le> endp w ! i) [0..<length (visible w)] = None"
    by (simp add: inSomeSpan_def find_None_iff list_ex_iff)
  then show ?thesis by (simp add: spanCell_def)
qed

lemma scroll_request_not_sentinel: "n * scrollSpeed \<noteq> - 1"
proof
  assume "n * scrollSpeed = - 1"
  then have "(n * 30) mod 30 = (- 1) mod (30::int)" by (simp add: scrollSpeed_def)
  then show False by simp
qed

lemma changeSelection_offset_x:
  assumes "x2 \<notin> set (visibleColumns v) \<or> lastIs (visibleColumns v) x2"
  shows "fst (dataOffset (fst (changeSelection p v s x1 y1 x2 y2 True))) =
           max (fst (dataOffset s)) (freezeColumns p) + (if lastLe (visibleColumns v) x2 then 1 else - 1)"
    and "dataOffset (fst (changeSelection p v s x1 y1 x2 y2 True)) \<noteq> dataOffset s \<Longrightarrow>
         ScrollLeft ((max (fst (dataOffset s)) (freezeColumns p)
                       + (if lastLe (visibleColumns v) x2 then 1 else - 1)) * scrollSpeed)
           \<in> set (snd (changeSelection p v s x1 y1 x2 y2 True))"
  using assms
  by (auto simp: changeSelection_def Let_def scroll_request_not_sentinel split: if_splits)

lemma changeSelection_offset_y:
  assumes "y2 \<notin> set (visibleRows v) \<or> lastIs (visibleRows v) y2"
  shows "snd (dataOffset (fst (changeSelection p v s x1 y1 x2 y2 True))) =
           max (snd (dataOffset s)) (freezeRows p) + (if lastLe (visibleRows v) y2 then 1 else - 1)"
    and "dataOffset (fst (changeSelection p v s x1 y1 x2 y2 True)) \<noteq> dataOffset s \<Longrightarrow>
         ScrollTop ((max (snd (dataOffset s)) (freezeRows p)
                       + (if lastLe (visibleRows v) y2 then 1 else - 1)) * scrollSpeed)
           \<in> set (snd (changeSelection p v s x1 y1 x2 y2 True))"
  using assms
  by (auto simp: changeSelection_def Let_def scroll_request_not_sentinel split: if_splits)

lemma changeBatches_append: "changeBatches (fx @ gx) = changeBatches fx @ changeBatches gx"
  by (induction fx rule: changeBatches.induct) simp_all

lemma changeSelection_no_change: "changeBatches (snd (changeSelection p v s x1 y1 x2 y2 scrollToP2)) = []"
  by (simp add: changeSelection_def Let_def split_def)

lemma changeSelection_selection:
  "selection (fst (changeSelection p v s x1 y1 x2 y2 scrollToP2)) = \<lparr>rx1 = x1, ry1 = y1, rx2 = x2, ry2 = y2\<rparr>"
  by (simp add: changeSelection_def Let_def split_def)

lemma paste_text_rows:
  "splitRows [CHR ''a'', TAB, CHR ''b'', LF, CHR ''c'', TAB, CHR ''d'']
     = [[CHR ''a'', TAB, CHR ''b''], [CHR ''c'', TAB, CHR ''d'']]"
  by code_simp

lemma paste_text_changes:
  "pasteRows 2 3 [[CHR ''a'', TAB, CHR ''b''], [CHR ''c'', TAB, CHR ''d'']] 0 2 [] =
     (3, [\<lparr>cx = 2, cy = 3, cvalue = Str ''a''\<rparr>, \<lparr>cx = 3, cy = 3, cvalue = Str ''b''\<rparr>,
          \<lparr>cx = 2, cy = 4, cvalue = Str ''c''\<rparr>, \<lparr>cx = 3, cy = 4, cvalue = Str ''d''\<rparr>])"
  by code_simp

lemma changeBatches_filter:
  "changeBatches fx = [] \<Longrightarrow> changeBatches (filter pr fx) = []"
  by (induction fx rule: changeBatches.induct) simp_all

lemma changeBatches_later: "changeBatches (filter isDeferred fx) = []"
  by (induction fx rule: changeBatches.induct) simp_all

lemma onMouseUp_changes:
  assumes "knobDragInProgress s" and "onChange p"
  shows "changeBatches (snd (onMouseUp p v s e)) = [knobChanges p s]"
proof -
  obtain s' fx where cs: "changeSelection p v s (rx1 (knobArea s)) (ry1 (knobArea s))
      (rx2 (knobArea s)) (ry2 (knobArea s)) True = (s', fx)"
    by (cases "changeSelection p v s (rx1 (knobArea s)) (ry1 (knobArea s))
      (rx2 (knobArea s)) (ry2 (knobArea s)) True")
  from changeSelection_no_change[of p v s "rx1 (knobArea s)" "ry1 (knobArea s)"
      "rx2 (knobArea s)" "ry2 (knobArea s)" True] cs
  have fx: "changeBatches fx = []" by simp
  obtain bx "by" h where b: "buttonClickMouseDownCoordinates s = (bx, by, h)"
    by (cases "buttonClickMouseDownCoordinates s")
  show ?thesis
    by (cases h)
       (simp_all add: onMouseUp_def Let_def assms cs b fx changeBatches_append
          changeBatches_filter changeBatches_later)
qed

lemma upto_two: "[i..i + 1] = [i, i + 1]"
  by (simp add: upto_rec1[of i "i + 1"])

lemma upto_three: "[i..i + 2] = [i, i + 1, i + 2]"
proof -
  have a: "[i..i + 2] = i # [i + 1..i + 2]" by (rule upto_rec1) simp
  have b: "[i + 1..i + 2] = (i + 1) # [i + 1 + 1..i + 2]" by (rule upto_rec1) simp
  have c: "i + 1 + 1 = i + 2" by simp
  show ?thesis by (simp only: a b c upto_single)
qed

lemma knobChanges_two_by_two_down:
  assumes "selection s = \<lparr>rx1 = x0, ry1 = y0, rx2 = x0 + 1, ry2 = y0 + 1\<rparr>"
    and "knobArea s = \<lparr>rx1 = x0, ry1 = y0, rx2 = x0 + 1, ry2 = y0 + 4\<rparr>"
  shows "knobChanges p s =
     [\<lparr>cx = x0, cy = y0 + 2, cvalue = sourceData p x0 y0\<rparr>,
      \<lparr>cx = x0 + 1, cy = y0 + 2, cvalue = sourceData p (x0 + 1) y0\<rparr>,
      \<lparr>cx = x0, cy = y0 + 3, cvalue = sourceData p x0 (y0 + 1)\<rparr>,
      \<lparr>cx = x0 + 1, cy = y0 + 3, cvalue = sourceData p (x0 + 1) (y0 + 1)\<rparr>,
      \<lparr>cx = x0, cy = y0 + 4, cvalue = sourceData p x0 y0\<rparr>,
      \<lparr>cx = x0 + 1, cy = y0 + 4, cvalue = sourceData p (x0 + 1) y0\<rparr>]"
proof -
  have k: "knobChanges p s = fillRows p x0 (x0 + 1) y0 (y0 + 1) [y0 + 1 + 1..y0 + 4] y0"
    by (simp add: knobChanges_def Let_def assms)
  from upto_three[of "y0 + 2"] have ys: "[y0 + 1 + 1..y0 + 4] = [y0 + 2, y0 + 3, y0 + 4]"
    by (simp add: add.commute)
  have f: "fillRows p x0 (x0 + 1) y0 (y0 + 1) [y0 + 2, y0 + 3, y0 + 4] y0 =
     [\<lparr>cx = x0, cy = y0 + 2, cvalue = sourceData p x0 y0\<rparr>,
      \<lparr>cx = x0 + 1, cy = y0 + 2, cvalue = sourceData p (x0 + 1) y0\<rparr>,
      \<lparr>cx = x0, cy = y0 + 3, cvalue = sourceData p x0 (y0 + 1)\<rparr>,
      \<lparr>cx = x0 + 1, cy = y0 + 3, cvalue = sourceData p (x0 + 1) (y0 + 1)\<rparr>,
      \<lparr>cx = x0, cy = y0 + 4, cvalue = sourceData p x0 y0\<rparr>,
      \<lparr>cx = x0 + 1, cy = y0 + 4, cvalue = sourceData p (x0 + 1) y0\<rparr>]"
    by (simp add: upto_two)
  show ?thesis by (simp only: k ys f)
qed

lemma read_only_blocks_edit_start:
  assumes "cellReadOnly p (fst c) (snd c)"
  shows "startEditingCell p s c = s"
  using assms by (simp add: startEditingCell_def)


lemma typing_on_read_only_cell:
  assumes "\<not> (editMode s \<and> arrowKeyCommitMode s \<and> isArrowKey (key e))"
    and "key e = ''Enter'' \<or> (48 \<le> keyCode e \<and> keyCode e \<le> 57 \<and> key e \<noteq> ''Shift'' \<and> key e \<noteq> ''Backspace'' \<and> key e \<noteq> ''Delete'')"
    and "\<not> metaKey e" and "\<not> ctrlKey e"
    and "rx1 (selection s) \<noteq> - 1" "rx2 (selection s) \<noteq> - 1" "ry1 (selection s) \<noteq> - 1" "ry2 (selection s) \<noteq> - 1"
    and "cellReadOnly p (rx1 (selection s)) (ry1 (selection s))"
  shows "onGridKeyDown p v s e = (s, [PreventDefault])"
proof -
  from assms(2) have k: "key e \<noteq> ''Shift''" "key e \<noteq> ''Backspace''" "key e \<noteq> ''Delete''" by auto
  from assms(2) have t: "(keyCode e \<ge> 48 \<and> keyCode e \<le> 57) \<or> (keyCode e \<ge> 96 \<and> keyCode e \<le> 105) \<or>
              (keyCode e \<ge> 65 \<and> keyCode e \<le> 90) \<or> key e = ''Enter'' \<or> key e = ''-'' \<or>
              key e = ''.'' \<or> key e = '',''" by blast
  show ?thesis
    unfolding onGridKeyDown_def Let_def
    by (simp only: assms(1,3-9) k t simp_thms if_True if_False)
qed

lemma cycleRow_0: "sy1 \<le> srcY \<Longrightarrow> srcY \<le> sy2 \<Longrightarrow> cycleRow sy1 sy2 srcY 0 = srcY"
  by (simp add: cycleRow_def)

lemma cycleRow_Suc:
  assumes "sy1 \<le> srcY" and "srcY \<le> sy2"
  shows "cycleRow sy1 sy2 srcY (Suc k) = cycleRow sy1 sy2 (if srcY + 1 > sy2 then sy1 else srcY + 1) k"
proof (cases "srcY + 1 > sy2")
  case True
  with assms have "srcY = sy2" by simp
  then have "srcY - sy1 + int (Suc k) = int k + (sy2 - sy1 + 1)" by simp
  then have "(srcY - sy1 + int (Suc k)) mod (sy2 - sy1 + 1) = int k mod (sy2 - sy1 + 1)"
    by (simp only: mod_add_self2)
  with True show ?thesis by (simp add: cycleRow_def)
next
  case False
  then show ?thesis by (simp add: cycleRow_def algebra_simps)
qed

lemma fillRows_cycles:
  assumes "sy1 \<le> srcY" and "srcY \<le> sy2"
  shows "fillRows p fx1 fx2 sy1 sy2 ys srcY =
     concat (map (\<lambda>k. map (\<lambda>x. \<lparr>cx = x, cy = ys ! k,
                                  cvalue = sourceData p x (cycleRow sy1 sy2 srcY k)\<rparr>) [fx1..fx2])
               [0..<length ys])"
  using assms
proof (induction ys arbitrary: srcY)
  case Nil
  show ?case by simp
next
  case (Cons y ys)
  let ?next = "if srcY + 1 > sy2 then sy1 else srcY + 1"
  have nxt: "sy1 \<le> ?next" "?next \<le> sy2" using Cons.prems by auto
  have upt: "[0..<length (y # ys)] = 0 # map Suc [0..<length ys]"
    by (simp add: upt_conv_Cons map_Suc_upt del: upt_Suc)
  have "fillRows p fx1 fx2 sy1 sy2 (y # ys) srcY =
          map (\<lambda>x. \<lparr>cx = x, cy = y, cvalue = sourceData p x srcY\<rparr>) [fx1..fx2] @
          fillRows p fx1 fx2 sy1 sy2 ys ?next" by simp
  also have "fillRows p fx1 fx2 sy1 sy2 ys ?next =
     concat (map (\<lambda>k. map (\<lambda>x. \<lparr>cx = x, cy = ys ! k,
                                  cvalue = sourceData p x (cycleRow sy1 sy2 ?next k)\<rparr>) [fx1..fx2])
               [0..<length ys])" by (rule Cons.IH[OF nxt])
  also have "map (\<lambda>x. \<lparr>cx = x, cy = y, cvalue = sourceData p x srcY\<rparr>) [fx1..fx2] @ \<dots> =
     concat (map (\<lambda>k. map (\<lambda>x. \<lparr>cx = x, cy = (y # ys) ! k,
                                  cvalue = sourceData p x (cycleRow sy1 sy2 srcY k)\<rparr>) [fx1..fx2])
               (0 # map Suc [0..<length ys]))"
    by (simp add: comp_def cycleRow_0[OF Cons.prems] cycleRow_Suc[OF Cons.prems])
  finally show ?case by (simp only: upt)
qed

section \<open>The claims\<close>

text \<open>
  Claim C1, as amended. For every pixel point that lies outside every visible column span,
  \<open>absCoordianteToCell\<close> returns the column \<open>0\<close>, and for every point outside every
  visible row span it returns the row \<open>0\<close>: the defaults its loops start from. The result is
  an ordinary cell index; nothing marks it as "no cell".
\<close>

theorem outside_pixel_maps_to_zero:
  "(\<not> inSomeSpan (columns v) absX \<longrightarrow> fst (absCoordianteToCell v absX absY) = 0) \<and>
   (\<not> inSomeSpan (rows v) absY \<longrightarrow> snd (absCoordianteToCell v absX absY) = 0)"
  by (simp add: absCoordianteToCell_def spanCell_default)

theorem outside_pixel_maps_to_zero_witness:
  "\<not> inSomeSpan (columns plainView) 10 \<and> fst (absCoordianteToCell plainView 10 5) = 0 \<and>
   \<not> inSomeSpan (rows plainView) 5 \<and> snd (absCoordianteToCell plainView 10 5) = 0"
proof -
  have h: "\<not> inSomeSpan (columns plainView) 10" "\<not> inSomeSpan (rows plainView) 5"
    by code_simp+
  with outside_pixel_maps_to_zero[of plainView 10 5] show ?thesis by simp
qed

text \<open>
  Claim C1 as stated fails: the point \<open>(10, 5)\<close> of the header corner lies in no span, and
  gets the same result as the point \<open>(60, 30)\<close> inside the real cell \<open>(0, 0)\<close>.
\<close>

theorem outside_pixel_same_as_first_cell:
  "render plainProps idleSheet = Some plainView \<and>
   \<not> inSomeSpan (columns plainView) 10 \<and> \<not> inSomeSpan (rows plainView) 5 \<and>
   inSomeSpan (columns plainView) 60 \<and> inSomeSpan (rows plainView) 30 \<and>
   absCoordianteToCell plainView 60 30 = (0, 0) \<and>
   absCoordianteToCell plainView 10 5 = absCoordianteToCell plainView 60 30"
proof -
  have "\<not> inSomeSpan (columns plainView) 10" "\<not> inSomeSpan (rows plainView) 5"
    "inSomeSpan (columns plainView) 60" "inSomeSpan (rows plainView) 30"
    "absCoordianteToCell plainView 60 30 = (0, 0)"
    "absCoordianteToCell plainView 10 5 = (0, 0)"
    by code_simp+
  with render_plain show ?thesis by simp
qed

text \<open>
  Claim C2 fails on the code: with every cell read-only, the Delete key on the selected cell
  \<open>(1, 1)\<close> emits the change \<open>{x: 1, y: 1, value: null}\<close>, and pasting \<open>x\<close> there emits
  \<open>{x: 1, y: 1, value: x}\<close>. Only starting an edit asks \<open>cellReadOnly\<close>.
\<close>

theorem delete_and_paste_reach_read_only_cell:
  "render lockedProps idleSheet = Some plainView \<and>
   cellReadOnly lockedProps 1 1 \<and>
   snd (onGridKeyDown lockedProps plainView
          (idleSheet\<lparr>selection := \<lparr>rx1 = 1, ry1 = 1, rx2 = 1, ry2 = 1\<rparr>\<rparr>) deleteKey)
     = [OnChange [\<lparr>cx = 1, cy = 1, cvalue = Null\<rparr>]] \<and>
   changeBatches (snd (parsePastedText lockedProps plainView
          (idleSheet\<lparr>selection := \<lparr>rx1 = 1, ry1 = 1, rx2 = 1, ry2 = 1\<rparr>\<rparr>) ''x''))
     = [[\<lparr>cx = 1, cy = 1, cvalue = Str ''x''\<rparr>]]"
proof -
  have "render lockedProps idleSheet = Some plainView" by code_simp
  moreover have "cellReadOnly lockedProps 1 1" by code_simp
  moreover have "snd (onGridKeyDown lockedProps plainView
          (idleSheet\<lparr>selection := \<lparr>rx1 = 1, ry1 = 1, rx2 = 1, ry2 = 1\<rparr>\<rparr>) deleteKey)
     = [OnChange [\<lparr>cx = 1, cy = 1, cvalue = Null\<rparr>]]" by code_simp
  moreover have "changeBatches (snd (parsePastedText lockedProps plainView
          (idleSheet\<lparr>selection := \<lparr>rx1 = 1, ry1 = 1, rx2 = 1, ry2 = 1\<rparr>\<rparr>) ''x''))
     = [[\<lparr>cx = 1, cy = 1, cvalue = Str ''x''\<rparr>]]" by code_simp
  ultimately show ?thesis by (simp only: simp_thms)
qed




text \<open>
  Claim C4, as amended. Whenever \<open>changeSelection\<close> is called with scroll-follow and the
  active corner is not in the window or is its last entry, on that axis the scroll offset
  becomes \<open>max(offset, frozen count)\<close> plus or minus one (plus when the last visible index is
  at or before the corner), and if the offsets changed the host scroll position is requested
  at the new offset times \<open>scrollSpeed\<close>. When the frozen count is at most the offset, this
  is exactly one cell from the current offset.
\<close>

theorem scroll_follow_from_frozen_edge:
  "(x2 \<notin> set (visibleColumns v) \<or> lastIs (visibleColumns v) x2 \<longrightarrow>
      (let s' = fst (changeSelection p v s x1 y1 x2 y2 True);
           newX = max (fst (dataOffset s)) (freezeColumns p)
                    + (if lastLe (visibleColumns v) x2 then 1 else - 1)
       in fst (dataOffset s') = newX \<and>
          (dataOffset s' \<noteq> dataOffset s \<longrightarrow>
             ScrollLeft (newX * scrollSpeed) \<in> set (snd (changeSelection p v s x1 y1 x2 y2 True))) \<and>
          (freezeColumns p \<le> fst (dataOffset s) \<longrightarrow> \<bar>newX - fst (dataOffset s)\<bar> = 1))) \<and>
   (y2 \<notin> set (visibleRows v) \<or> lastIs (visibleRows v) y2 \<longrightarrow>
      (let s' = fst (changeSelection p v s x1 y1 x2 y2 True);
           newY = max (snd (dataOffset s)) (freezeRows p)
                    + (if lastLe (visibleRows v) y2 then 1 else - 1)
       in snd (dataOffset s') = newY \<and>
          (dataOffset s' \<noteq> dataOffset s \<longrightarrow>
             ScrollTop (newY * scrollSpeed) \<in> set (snd (changeSelection p v s x1 y1 x2 y2 True))) \<and>
          (freezeRows p \<le> snd (dataOffset s) \<longrightarrow> \<bar>newY - snd (dataOffset s)\<bar> = 1)))"
proof (intro conjI impI)
  assume a: "x2 \<notin> set (visibleColumns v) \<or> lastIs (visibleColumns v) x2"
  have "freezeColumns p \<le> fst (dataOffset s) \<longrightarrow>
        \<bar>max (fst (dataOffset s)) (freezeColumns p)
            + (if lastLe (visibleColumns v) x2 then 1 else - 1) - fst (dataOffset s)\<bar> = 1"
    by simp
  with changeSelection_offset_x[OF a, of p s x1 y1 y2]
  show "let s' = fst (changeSelection p v s x1 y1 x2 y2 True);
           newX = max (fst (dataOffset s)) (freezeColumns p)
                    + (if lastLe (visibleColumns v) x2 then 1 else - 1)
       in fst (dataOffset s') = newX \<and>
          (dataOffset s' \<noteq> dataOffset s \<longrightarrow>
             ScrollLeft (newX * scrollSpeed) \<in> set (snd (changeSelection p v s x1 y1 x2 y2 True))) \<and>
          (freezeColumns p \<le> fst (dataOffset s) \<longrightarrow> \<bar>newX - fst (dataOffset s)\<bar> = 1)"
    unfolding Let_def by blast
next
  assume a: "y2 \<notin> set (visibleRows v) \<or> lastIs (visibleRows v) y2"
  have "freezeRows p \<le> snd (dataOffset s) \<longrightarrow>
        \<bar>max (snd (dataOffset s)) (freezeRows p)
            + (if lastLe (visibleRows v) y2 then 1 else - 1) - snd (dataOffset s)\<bar> = 1"
    by simp
  with changeSelection_offset_y[OF a, of p s x1 y1 x2]
  show "let s' = fst (changeSelection p v s x1 y1 x2 y2 True);
           newY = max (snd (dataOffset s)) (freezeRows p)
                    + (if lastLe (visibleRows v) y2 then 1 else - 1)
       in snd (dataOffset s') = newY \<and>
          (dataOffset s' \<noteq> dataOffset s \<longrightarrow>
             ScrollTop (newY * scrollSpeed) \<in> set (snd (changeSelection p v s x1 y1 x2 y2 True))) \<and>
          (freezeRows p \<le> snd (dataOffset s) \<longrightarrow> \<bar>newY - snd (dataOffset s)\<bar> = 1)"
    unfolding Let_def by blast
qed

theorem scroll_follow_from_frozen_edge_witness:
  "render frozenProps idleSheet = Some plainView \<and>
   5 \<notin> set (visibleColumns plainView) \<and> 7 \<notin> set (visibleRows plainView) \<and>
   dataOffset idleSheet = (0, 0) \<and>
   dataOffset (fst (changeSelection frozenProps plainView idleSheet 5 7 5 7 True)) = (3, 1) \<and>
   ScrollLeft 90 \<in> set (snd (changeSelection frozenProps plainView idleSheet 5 7 5 7 True)) \<and>
   ScrollTop 30 \<in> set (snd (changeSelection frozenProps plainView idleSheet 5 7 5 7 True)) \<and>
   freezeColumns plainProps \<le> fst (dataOffset idleSheet) \<and>
   freezeRows plainProps \<le> snd (dataOffset idleSheet) \<and>
   dataOffset (fst (changeSelection plainProps plainView idleSheet 5 7 5 7 True)) = (1, 1)"
proof -
  have h: "5 \<notin> set (visibleColumns plainView)" "7 \<notin> set (visibleRows plainView)"
    by (simp_all add: visibleColumns_def visibleRows_def plainView_def)
  have e: "dataOffset idleSheet = (0, 0)" "freezeColumns frozenProps = 2" "freezeRows frozenProps = 0"
    "lastLe (visibleColumns plainView) 5" "lastLe (visibleRows plainView) 7" "scrollSpeed = 30"
    by (simp_all add: idleSheet_def freezeColumns_def freezeRows_def frozenProps_def plainProps_def
        lastLe_def visibleColumns_def visibleRows_def plainView_def scrollSpeed_def)
  have f: "freezeColumns plainProps = 0" "freezeRows plainProps = 0"
    by (simp_all add: freezeColumns_def freezeRows_def plainProps_def)
  from scroll_follow_from_frozen_edge[of 5 plainView frozenProps idleSheet 5 7 7]
    scroll_follow_from_frozen_edge[of 5 plainView plainProps idleSheet 5 7 7] h
  show ?thesis
    by (simp add: e f Let_def render_frozen prod_eq_iff)
qed

text \<open>
  Claim C4 as stated fails: with two frozen columns and the scroll offset \<open>0\<close>, moving the
  active corner to the column \<open>5\<close>, which is not visible, sets the offset to \<open>3\<close>.
\<close>

theorem scroll_follow_jumps_past_frozen:
  "render frozenProps idleSheet = Some plainView \<and>
   5 \<notin> set (visibleColumns plainView) \<and>
   fst (dataOffset idleSheet) = 0 \<and>
   fst (dataOffset (fst (changeSelection frozenProps plainView idleSheet 5 0 5 0 True))) = 3"
proof -
  have "fst (dataOffset (fst (changeSelection frozenProps plainView idleSheet 5 0 5 0 True))) = 3"
    by code_simp
  moreover have "5 \<notin> set (visibleColumns plainView)"
    by (simp add: visibleColumns_def plainView_def)
  moreover have "fst (dataOffset idleSheet) = 0"
    by (simp add: idleSheet_def)
  ultimately show ?thesis using render_frozen by blast
qed

text \<open>
  Claim C5. Releasing a fill-handle drag that extends a 2 by 2 block holding the source
  values \<open>[[1,2],[3,4]]\<close> by three rows below it emits one batch of changes: the values
  \<open>1, 2\<close> for the first destination row, \<open>3, 4\<close> for the second, and \<open>1, 2\<close> again for
  the third, the source row wrapping to the top of the block.
\<close>

theorem fill_handle_cycles_rows:
  assumes "knobDragInProgress s" and "onChange p"
    and "selection s = \<lparr>rx1 = x0, ry1 = y0, rx2 = x0 + 1, ry2 = y0 + 1\<rparr>"
    and "knobArea s = \<lparr>rx1 = x0, ry1 = y0, rx2 = x0 + 1, ry2 = y0 + 4\<rparr>"
    and "sourceData p x0 y0 = Num 1" and "sourceData p (x0 + 1) y0 = Num 2"
    and "sourceData p x0 (y0 + 1) = Num 3" and "sourceData p (x0 + 1) (y0 + 1) = Num 4"
  shows "changeBatches (snd (onMouseUp p v s e)) =
     [[\<lparr>cx = x0, cy = y0 + 2, cvalue = Num 1\<rparr>, \<lparr>cx = x0 + 1, cy = y0 + 2, cvalue = Num 2\<rparr>,
       \<lparr>cx = x0, cy = y0 + 3, cvalue = Num 3\<rparr>, \<lparr>cx = x0 + 1, cy = y0 + 3, cvalue = Num 4\<rparr>,
       \<lparr>cx = x0, cy = y0 + 4, cvalue = Num 1\<rparr>, \<lparr>cx = x0 + 1, cy = y0 + 4, cvalue = Num 2\<rparr>]]"
  by (simp only: onMouseUp_changes[OF assms(1,2)] knobChanges_two_by_two_down[OF assms(3,4)]
      assms(5-8))

theorem fill_handle_cycles_rows_witness:
  "knobDragInProgress dragSheet \<and> onChange blockProps \<and>
   selection dragSheet = \<lparr>rx1 = 0, ry1 = 0, rx2 = 0 + 1, ry2 = 0 + 1\<rparr> \<and>
   knobArea dragSheet = \<lparr>rx1 = 0, ry1 = 0, rx2 = 0 + 1, ry2 = 0 + 4\<rparr> \<and>
   sourceData blockProps 0 0 = Num 1 \<and> sourceData blockProps (0 + 1) 0 = Num 2 \<and>
   sourceData blockProps 0 (0 + 1) = Num 3 \<and> sourceData blockProps (0 + 1) (0 + 1) = Num 4 \<and>
   changeBatches (snd (onMouseUp blockProps plainView dragSheet (0, 0))) =
     [[\<lparr>cx = 0, cy = 0 + 2, cvalue = Num 1\<rparr>, \<lparr>cx = 0 + 1, cy = 0 + 2, cvalue = Num 2\<rparr>,
       \<lparr>cx = 0, cy = 0 + 3, cvalue = Num 3\<rparr>, \<lparr>cx = 0 + 1, cy = 0 + 3, cvalue = Num 4\<rparr>,
       \<lparr>cx = 0, cy = 0 + 4, cvalue = Num 1\<rparr>, \<lparr>cx = 0 + 1, cy = 0 + 4, cvalue = Num 2\<rparr>]]"
proof -
  have h: "knobDragInProgress dragSheet" "onChange blockProps"
    "selection dragSheet = \<lparr>rx1 = 0, ry1 = 0, rx2 = 0 + 1, ry2 = 0 + 1\<rparr>"
    "knobArea dragSheet = \<lparr>rx1 = 0, ry1 = 0, rx2 = 0 + 1, ry2 = 0 + 4\<rparr>"
    by (simp_all add: dragSheet_def blockProps_def plainProps_def)
  have d: "sourceData blockProps 0 0 = Num 1" "sourceData blockProps (0 + 1) 0 = Num 2"
    "sourceData blockProps 0 (0 + 1) = Num 3" "sourceData blockProps (0 + 1) (0 + 1) = Num 4"
    by (simp_all add: sourceData_def blockProps_def)
  from h d fill_handle_cycles_rows[OF h d, of plainView "(0, 0)"]
  show ?thesis by (simp only: simp_thms)
qed

text \<open>
  Claim C6. Pasting the text \<open>a TAB b LF c TAB d\<close> with the paste anchor at the cell
  \<open>(2,3)\<close> emits exactly the four changes \<open>(2,3,a) (3,3,b) (2,4,c) (3,4,d)\<close>, in one batch,
  and leaves the selection \<open>(2,3)-(3,4)\<close>.
\<close>

theorem paste_two_by_two:
  assumes "pasteLoc s = (2, 3)" and "onChange p"
  shows "changeBatches (snd (parsePastedText p v s [CHR ''a'', TAB, CHR ''b'', LF, CHR ''c'', TAB, CHR ''d'']))
           = [[\<lparr>cx = 2, cy = 3, cvalue = Str ''a''\<rparr>, \<lparr>cx = 3, cy = 3, cvalue = Str ''b''\<rparr>,
               \<lparr>cx = 2, cy = 4, cvalue = Str ''c''\<rparr>, \<lparr>cx = 3, cy = 4, cvalue = Str ''d''\<rparr>]] \<and>
         selection (fst (parsePastedText p v s [CHR ''a'', TAB, CHR ''b'', LF, CHR ''c'', TAB, CHR ''d'']))
           = \<lparr>rx1 = 2, ry1 = 3, rx2 = 3, ry2 = 4\<rparr>"
proof -
  obtain s' fx where cs: "changeSelection p v s 2 3 3 4 False = (s', fx)"
    by (cases "changeSelection p v s 2 3 3 4 False")
  have "parsePastedText p v s [CHR ''a'', TAB, CHR ''b'', LF, CHR ''c'', TAB, CHR ''d''] =
          (s', [OnChange [\<lparr>cx = 2, cy = 3, cvalue = Str ''a''\<rparr>, \<lparr>cx = 3, cy = 3, cvalue = Str ''b''\<rparr>,
                          \<lparr>cx = 2, cy = 4, cvalue = Str ''c''\<rparr>, \<lparr>cx = 3, cy = 4, cvalue = Str ''d''\<rparr>]] @ fx)"
    unfolding parsePastedText_def
    by (simp only: assms paste_text_rows paste_text_changes Let_def prod.case if_True)
       (simp add: cs)
  moreover from changeSelection_no_change[of p v s 2 3 3 4 False] cs have "changeBatches fx = []"
    by simp
  moreover from changeSelection_selection[of p v s 2 3 3 4 False] cs
  have "selection s' = \<lparr>rx1 = 2, ry1 = 3, rx2 = 3, ry2 = 4\<rparr>" by simp
  ultimately show ?thesis by simp
qed

theorem paste_two_by_two_witness:
  "pasteLoc (idleSheet\<lparr>selection := \<lparr>rx1 = 2, ry1 = 3, rx2 = 2, ry2 = 3\<rparr>\<rparr>) = (2, 3) \<and>
   onChange plainProps \<and>
   changeBatches (snd (parsePastedText plainProps plainView
       (idleSheet\<lparr>selection := \<lparr>rx1 = 2, ry1 = 3, rx2 = 2, ry2 = 3\<rparr>\<rparr>)
       [CHR ''a'', TAB, CHR ''b'', LF, CHR ''c'', TAB, CHR ''d'']))
     = [[\<lparr>cx = 2, cy = 3, cvalue = Str ''a''\<rparr>, \<lparr>cx = 3, cy = 3, cvalue = Str ''b''\<rparr>,
         \<lparr>cx = 2, cy = 4, cvalue = Str ''c''\<rparr>, \<lparr>cx = 3, cy = 4, cvalue = Str ''d''\<rparr>]] \<and>
   selection (fst (parsePastedText plainProps plainView
       (idleSheet\<lparr>selection := \<lparr>rx1 = 2, ry1 = 3, rx2 = 2, ry2 = 3\<rparr>\<rparr>)
       [CHR ''a'', TAB, CHR ''b'', LF, CHR ''c'', TAB, CHR ''d'']))
     = \<lparr>rx1 = 2, ry1 = 3, rx2 = 3, ry2 = 4\<rparr>"
proof -
  have h: "pasteLoc (idleSheet\<lparr>selection := \<lparr>rx1 = 2, ry1 = 3, rx2 = 2, ry2 = 3\<rparr>\<rparr>) = (2, 3)"
    "onChange plainProps"
    by (simp_all add: pasteLoc_def Let_def plainProps_def)
  from paste_two_by_two[OF h, of plainView] h show ?thesis by (simp only: simp_thms)
qed

text \<open>
  Claim C7. For every frozen count \<open>f > 0\<close> and every scroll offset, the window that
  \<open>calculateRowsOrColsSizes\<close> returns lists the indices \<open>0..f-1\<close> of the frozen leading
  block, whatever the sizes, the scroll offset and the visible extent are; and with positive
  sizes it does return such a window.
\<close>

theorem frozen_block_in_window:
  assumes "0 < freezeCount"
  shows "(\<forall>w. calculateRowsOrColsSizes freezeCount sizef startingSize startingIndex visibleArea = Some w
              \<longrightarrow> {0..freezeCount - 1} \<subseteq> set (visible w)) \<and>
         ((\<forall>i. 0 < sizef i) \<longrightarrow>
            (\<exists>w. calculateRowsOrColsSizes freezeCount sizef startingSize startingIndex visibleArea = Some w
                  \<and> {0..freezeCount - 1} \<subseteq> set (visible w)))"
proof -
  have part: "{0..freezeCount - 1} \<subseteq> set (visible w)"
    if "calculateRowsOrColsSizes freezeCount sizef startingSize startingIndex visibleArea = Some w" for w
  proof -
    from calc_visible[OF that] assms obtain m where
      "visible w = [0..freezeCount - 1] @ [max startingIndex freezeCount..m]" by auto
    then show ?thesis by simp
  qed
  show ?thesis
  proof (intro conjI allI impI)
    fix w assume "calculateRowsOrColsSizes freezeCount sizef startingSize startingIndex visibleArea = Some w"
    then show "{0..freezeCount - 1} \<subseteq> set (visible w)" by (rule part)
  next
    assume "\<forall>i. 0 < sizef i"
    from calc_returns[OF this] obtain w where
      w: "calculateRowsOrColsSizes freezeCount sizef startingSize startingIndex visibleArea = Some w"
      by blast
    with part[OF w] show "\<exists>w. calculateRowsOrColsSizes freezeCount sizef startingSize startingIndex visibleArea = Some w
                  \<and> {0..freezeCount - 1} \<subseteq> set (visible w)" by blast
  qed
qed

theorem frozen_block_in_window_witness:
  "(0::int) < 2 \<and> (\<forall>i. 0 < createRowOrColumnPropFunction AxisOther (100::int) i) \<and>
   calculateRowsOrColsSizes 2 (createRowOrColumnPropFunction AxisOther 100) 50 5 400
     = Some \<lparr>visible = [0, 1, 5, 6], start = [50, 150, 250, 350], endp = [150, 250, 350, 450]\<rparr>
   \<and> {0..2 - 1} \<subseteq> set (visible \<lparr>visible = [0, 1, 5, 6], start = [50, 150, 250, 350], endp = [150, 250, 350, 450]\<rparr>)"
proof -
  have r: "calculateRowsOrColsSizes 2 (createRowOrColumnPropFunction AxisOther 100) 50 5 400
     = Some \<lparr>visible = [0, 1, 5, 6], start = [50, 150, 250, 350], endp = [150, 250, 350, 450]\<rparr>"
    by code_simp
  have p: "(0::int) < 2" by simp
  from frozen_block_in_window[OF p, of "createRowOrColumnPropFunction AxisOther 100" 50 5 400] r
  show ?thesis by simp
qed

text \<open>
  Claim C8, as amended. On integer sizes and arguments (where the sums of the loop are exact),
  \<open>calculateRowsOrColsSizes\<close> terminates exactly when the cumulative end of some index from
  the resume index on (\<open>max(startingIndex, freezeCount)\<close> with frozen cells, else
  \<open>startingIndex + 1\<close>) reaches the visible extent; it does so whenever every size from the
  resume index on is at least \<open>1\<close>; and whenever it terminates, the last entry of the end
  array it returns is greater than or equal to the visible extent.
\<close>

theorem window_reaches_extent:
  "(\<forall>w. calculateRowsOrColsSizes freezeCount sizef startingSize startingIndex visibleArea = Some w
         \<longrightarrow> visibleArea \<le> last (endp w)) \<and>
   ((\<exists>w. calculateRowsOrColsSizes freezeCount sizef startingSize startingIndex visibleArea = Some w)
      \<longleftrightarrow> (\<exists>n. visibleArea \<le> cumulativeEnd freezeCount sizef startingSize startingIndex n)) \<and>
   ((\<forall>i\<ge>resumeIndex freezeCount startingIndex. 1 \<le> sizef i) \<longrightarrow>
      (\<exists>w. calculateRowsOrColsSizes freezeCount sizef startingSize startingIndex visibleArea = Some w
           \<and> visibleArea \<le> last (endp w)))"
proof (intro conjI allI impI)
  fix w
  assume "calculateRowsOrColsSizes freezeCount sizef startingSize startingIndex visibleArea = Some w"
  from calc_chained[OF this] show "visibleArea \<le> last (endp w)" by simp
next
  show "(\<exists>w. calculateRowsOrColsSizes freezeCount sizef startingSize startingIndex visibleArea = Some w)
      \<longleftrightarrow> (\<exists>n. visibleArea \<le> cumulativeEnd freezeCount sizef startingSize startingIndex n)"
    by (rule calc_returns_iff)
next
  assume "\<forall>i\<ge>resumeIndex freezeCount startingIndex. 1 \<le> sizef i"
  from calc_returns_from_resume[OF this] obtain w where
    w: "calculateRowsOrColsSizes freezeCount sizef startingSize startingIndex visibleArea = Some w"
    by blast
  with calc_chained[OF w]
  show "\<exists>w. calculateRowsOrColsSizes freezeCount sizef startingSize startingIndex visibleArea = Some w
           \<and> visibleArea \<le> last (endp w)" by blast
qed

theorem window_reaches_extent_witness:
  "calculateRowsOrColsSizes 0 gapWidths 50 0 300
     = Some \<lparr>visible = [0, 1, 2, 3], start = [50, 150, 150, 250], endp = [150, 150, 250, 350]\<rparr> \<and>
   300 \<le> last (endp \<lparr>visible = [0, 1, 2, 3], start = [50, 150, 150, 250], endp = [150, 150, 250, 350]\<rparr>) \<and>
   cumulativeEnd 0 gapWidths 50 0 2 = 350 \<and>
   (\<exists>n. 300 \<le> cumulativeEnd 0 gapWidths 50 0 n) \<and>
   (\<forall>i. 1 \<le> createRowOrColumnPropFunction AxisOther (100::int) i) \<and>
   (\<exists>w. calculateRowsOrColsSizes 2 (createRowOrColumnPropFunction AxisOther 100) 50 5 400 = Some w
        \<and> 400 \<le> last (endp w))"
proof -
  have r: "calculateRowsOrColsSizes 0 gapWidths 50 0 300
     = Some \<lparr>visible = [0, 1, 2, 3], start = [50, 150, 150, 250], endp = [150, 150, 250, 350]\<rparr>"
    by code_simp
  have c: "cumulativeEnd 0 gapWidths 50 0 2 = 350" by code_simp
  note t1 = window_reaches_extent[of 0 gapWidths 50 0 300]
  from t1 r have l: "300 \<le> last (endp \<lparr>visible = [0, 1, 2, 3], start = [50, 150, 150, 250],
      endp = [150, 150, 250, 350]\<rparr>)" by blast
  from t1 r have n: "\<exists>n. 300 \<le> cumulativeEnd 0 gapWidths 50 0 n" by blast
  have p: "\<forall>i. 1 \<le> createRowOrColumnPropFunction AxisOther (100::int) i" by simp
  with window_reaches_extent[of 2 "createRowOrColumnPropFunction AxisOther 100" 50 5 400]
  have e: "\<exists>w. calculateRowsOrColsSizes 2 (createRowOrColumnPropFunction AxisOther 100) 50 5 400 = Some w
        \<and> 400 \<le> last (endp w)" by blast
  from r l c n p e show ?thesis by blast
qed

text \<open>
  Claim C8 as stated fails: with the size prop \<open>0\<close> every cumulative end is the header
  size \<open>50\<close>, none reaches the extent \<open>3000\<close>, and the loop never leaves.
\<close>

theorem zero_size_never_returns:
  "calculateRowsOrColsSizes 0 (createRowOrColumnPropFunction (AxisNumber 0) 100) 50 0 3000 = None"
  by (simp add: calculateRowsOrColsSizes_def Let_def whileLoop_diverges)

text \<open>
  Claim C9. Every call of \<open>changeSelection\<close>, with any rectangle, inverted or not, calls
  \<open>onSelectionChanged\<close> (when the host passed it) exactly once, with a rectangle whose first
  corner is componentwise at most its second and which has the cells of the input rectangle.
\<close>

theorem selection_notice_normalized:
  assumes "onSelectionChanged p"
  shows "\<exists>sx1 sy1 sx2 sy2.
           selectionNotices (snd (changeSelection p v s x1 y1 x2 y2 scrollToP2)) = [(sx1, sy1, sx2, sy2)] \<and>
           sx1 \<le> sx2 \<and> sy1 \<le> sy2 \<and> cellsOf sx1 sy1 sx2 sy2 = cellsOf x1 y1 x2 y2"
  using assms by (auto simp: changeSelection_def Let_def cellsOf_def min_def max_def split: prod.splits)

theorem selection_notice_normalized_witness:
  "onSelectionChanged plainProps \<and>
   selectionNotices (snd (changeSelection plainProps plainView idleSheet 2 1 0 0 False)) = [(0, 0, 2, 1)] \<and>
   cellsOf 0 0 2 1 = cellsOf 2 1 0 0"
proof -
  have p: "onSelectionChanged plainProps" by (simp add: plainProps_def)
  have n: "selectionNotices (snd (changeSelection plainProps plainView idleSheet 2 1 0 0 False)) = [(0, 0, 2, 1)]"
    by code_simp
  from selection_notice_normalized[OF p, of plainView idleSheet 2 1 0 0 False] p n
  show ?thesis by simp
qed

text \<open>
  Claim C10. Backspace or Delete pressed while nothing is selected (all four components of
  the selection are \<open>-1\<close>) still emits exactly one change \<open>{x: -1, y: -1, value: null}\<close>
  through \<open>onChange\<close>: the delete branch of \<open>onGridKeyDown\<close> comes before the test for no
  selection.
\<close>

theorem delete_without_selection:
  assumes "selection s = noSelection" and "onChange p"
    and "key e = ''Backspace'' \<and> which e = 8 \<or> key e = ''Delete'' \<and> which e = 46"
  shows "onGridKeyDown p v s e = (s, [OnChange [\<lparr>cx = - 1, cy = - 1, cvalue = Null\<rparr>]])"
proof -
  from assms(3) have k: "key e = ''Backspace'' \<or> key e = ''Delete''" by blast
  from assms(3) have arrow: "\<not> isArrowKey (key e)" by (auto simp: isArrowKey_def)
  from assms(3) have shift: "key e \<noteq> ''Shift''" by auto
  from assms(3) have chord: "\<not> whichLowerIs e 118" "\<not> whichLowerIs e 99"
    by (auto simp: whichLowerIs_def)
  have d: "deleteChanges (- 1) (- 1) (- 1) (- 1) = [\<lparr>cx = - 1, cy = - 1, cvalue = Null\<rparr>]"
    by (simp add: deleteChanges_def)
  have sel: "rx1 (selection s) = - 1" "rx2 (selection s) = - 1" "ry1 (selection s) = - 1"
    "ry2 (selection s) = - 1"
    by (simp_all add: assms(1) noSelection_def)
  show ?thesis
    unfolding onGridKeyDown_def Let_def
    by (simp only: arrow shift chord k sel assms(2) simp_thms if_True if_False if_cancel d)
qed

theorem delete_without_selection_witness:
  "selection idleSheet = noSelection \<and> onChange plainProps \<and>
   key backspaceKey = ''Backspace'' \<and> which backspaceKey = 8 \<and>
   onGridKeyDown plainProps plainView idleSheet backspaceKey
     = (idleSheet, [OnChange [\<lparr>cx = - 1, cy = - 1, cvalue = Null\<rparr>]])"
proof -
  have h: "selection idleSheet = noSelection" "onChange plainProps"
    "key backspaceKey = ''Backspace''" "which backspaceKey = 8"
    by (simp_all add: idleSheet_def plainProps_def backspaceKey_def)
  from h delete_without_selection[OF h(1) h(2) disjI1[OF conjI[OF h(3) h(4)]], of plainView]
  show ?thesis by (simp only: simp_thms)
qed


end
